theory Spec2Isabelle
  imports Main "HOL-Library.Word"
begin

unbundle bit_operations_syntax

section \<open>Bytes and fixed-width values\<close>

text \<open>
  The codec copies the host's little-endian representation of its values with
  \<^verbatim>\<open>memcpy\<close>.  A buffer is a list of bytes; \<open>le_bytes n w\<close> is the first \<open>n\<close> bytes
  of the word \<open>w\<close> in memory order and \<open>le_word bs\<close> is the word whose memory starts
  with the bytes \<open>bs\<close> (bytes that do not fit the word's width fall outside it).
\<close>

type_synonym byte = "8 word"

primrec le_bytes :: "nat \<Rightarrow> 'a::len word \<Rightarrow> byte list" where
  "le_bytes 0 w = []"
| "le_bytes (Suc n) w = ucast w # le_bytes n (drop_bit 8 w)"

primrec le_word :: "byte list \<Rightarrow> 'a::len word" where
  "le_word [] = 0"
| "le_word (b # bs) = ucast b OR push_bit 8 (le_word bs)"

section \<open>Errors\<close>

text \<open>
  The exceptions derived from \<^verbatim>\<open>BadPto\<close>, with the arguments of their constructors.
  \<open>Undefined\<close> is no exception of the source and no handler catches it: it is the
  outcome of a step whose behaviour C++ leaves undefined, so that a walk which
  reaches it has no result.
\<close>

datatype BadPto =
    BadArrayType string string
  | BadArraySize string
  | BadField bool string string string
  | BadInt string "64 word" bool
  | BadString string nat
  | BadType string int
  | BadDecode
  | TooDepth bool
  | Undefined

section \<open>Encoder: the output buffer\<close>

text \<open>
  An \<^verbatim>\<open>Encoder\<close> owns a growable buffer \<^verbatim>\<open>ptr_\<close> of capacity \<^verbatim>\<open>size_\<close> of which the
  first \<^verbatim>\<open>offset_\<close> bytes are written.  \<^verbatim>\<open>Reserve\<close> only changes the capacity and
  keeps the written bytes, so the model of an encoder is the list of the bytes
  written so far, \<^verbatim>\<open>ptr_[0 .. offset_)\<close>; the output is assumed to stay below the
  range of the \<^verbatim>\<open>int\<close> offsets.
\<close>

type_synonym Encoder = "byte list"

definition Append :: "byte list \<Rightarrow> Encoder \<Rightarrow> Encoder" where
  "Append data enc = enc @ data"

definition Append_uint8 :: "8 word \<Rightarrow> Encoder \<Rightarrow> Encoder" where
  "Append_uint8 val = Append (le_bytes 1 val)"

definition Append_uint16 :: "16 word \<Rightarrow> Encoder \<Rightarrow> Encoder" where
  "Append_uint16 val = Append (le_bytes 2 val)"

definition Append_bool :: "bool \<Rightarrow> Encoder \<Rightarrow> Encoder" where
  "Append_bool val = Append [if val then 1 else 0]"

definition Append_short :: "16 word \<Rightarrow> Encoder \<Rightarrow> Encoder" where
  "Append_short val = Append (le_bytes 2 val)"

definition Append_float :: "32 word \<Rightarrow> Encoder \<Rightarrow> Encoder" where
  "Append_float val = Append (le_bytes 4 val)"

definition Append_double :: "64 word \<Rightarrow> Encoder \<Rightarrow> Encoder" where
  "Append_double val = Append (le_bytes 8 val)"

text \<open>\<^verbatim>\<open>Append(const char* str, int sz)\<close>: a 16-bit length, then the bytes.\<close>

definition Append_str :: "byte list \<Rightarrow> Encoder \<Rightarrow> Encoder" where
  "Append_str str enc = Append str (Append_uint16 (word_of_nat (length str)) enc)"

text \<open>
  \<^verbatim>\<open>Append(int64_t val)\<close>, the variable-length integer.  \<open>varint_length\<close> is the
  \<^verbatim>\<open>if\<close> chain that chooses \<^verbatim>\<open>length\<close>, \<open>varint_data\<close> the array \<^verbatim>\<open>data\<close> that is
  appended.
\<close>

definition varint_length :: "64 word \<Rightarrow> nat" where
  "varint_length value =
     (if value \<le> 0xff then 1
      else if value \<le> 0xffff then 2
      else if value \<le> 0xffffff then 3
      else if value \<le> 0xffffffff then 4
      else if value \<le> 0xffffffffff then 5
      else if value \<le> 0xffffffffffff then 6
      else 7)"

definition varint_data :: "64 word \<Rightarrow> byte list" where
  "varint_data val =
     (if val = 0 then le_bytes 1 (0 :: 8 word)
      else
        let positive = (if val <s 0 then 0 else 1 :: 8 word);
            value = (if val <s 0 then - val else val);
            len = varint_length value;
            tag = push_bit 1 (word_of_nat len :: 8 word) OR positive
        in tag # le_bytes len value)"

definition Append_int64 :: "64 word \<Rightarrow> Encoder \<Rightarrow> Encoder" where
  "Append_int64 val = Append (varint_data val)"

section \<open>Decoder: the input cursor\<close>

text \<open>
  A \<^verbatim>\<open>Decoder\<close> borrows the input \<^verbatim>\<open>ptr_\<close> of \<^verbatim>\<open>size_\<close> bytes and keeps a cursor
  \<^verbatim>\<open>offset_\<close> (the fields \<open>d_ptr\<close>, \<open>d_size\<close>, \<open>d_offset\<close>: a name may not end in
  an underscore here).  Size and cursor are C \<^verbatim>\<open>int\<close>s; the model keeps them as
  naturals, for inputs shorter than \<open>2 ^ 31\<close> bytes (\<open>fits_int\<close>), where the
  conversion of the length to \<^verbatim>\<open>int\<close> keeps its value.
\<close>

record Decoder =
  d_ptr :: "byte list"
  d_offset :: nat
  d_size :: nat

definition Decoder :: "byte list \<Rightarrow> nat \<Rightarrow> Decoder" where
  "Decoder ptr sz = \<lparr>d_ptr = ptr, d_offset = 0, d_size = sz\<rparr>"

definition fits_int :: "byte list \<Rightarrow> bool" where
  "fits_int buf = (length buf < 2 ^ 31)"

type_synonym 'a reader = "Decoder \<Rightarrow> BadPto + ('a \<times> Decoder)"

text \<open>Sequencing of reads: the first exception thrown ends the walk.\<close>

definition bindD :: "'a reader \<Rightarrow> ('a \<Rightarrow> 'b reader) \<Rightarrow> 'b reader" where
  "bindD m f d = (case m d of Inl e \<Rightarrow> Inl e | Inr (x, d') \<Rightarrow> f x d')"

definition returnD :: "'a \<Rightarrow> 'a reader" where
  "returnD x d = Inr (x, d)"

text \<open>\<^verbatim>\<open>Read(uint8_t* val, int size)\<close>: the next \<open>sz\<close> bytes.\<close>

definition Read_bytes :: "nat \<Rightarrow> (byte list) reader" where
  "Read_bytes sz d =
     (if d_size d - d_offset d < sz then Inl BadDecode
      else Inr (take sz (drop (d_offset d) (d_ptr d)), d\<lparr>d_offset := d_offset d + sz\<rparr>))"

text \<open>\<^verbatim>\<open>template<typename T> T Read()\<close> for a \<open>T\<close> of \<open>sz\<close> bytes.\<close>

definition Read_T :: "nat \<Rightarrow> ('a::len word) reader" where
  "Read_T sz d =
     (if sz > d_size d - d_offset d then Inl BadDecode
      else Inr (le_word (take sz (drop (d_offset d) (d_ptr d))), d\<lparr>d_offset := d_offset d + sz\<rparr>))"

definition Read_uint8 :: "(8 word) reader" where
  "Read_uint8 = Read_T 1"

definition Read_uint16 :: "(16 word) reader" where
  "Read_uint16 = Read_T 2"

text \<open>
  \<^verbatim>\<open>int64_t Read()\<close>.  \<^verbatim>\<open>Read((uint8_t*)&value, length)\<close> first tests that \<open>length\<close>
  bytes remain and then copies them over the 8-byte local \<^verbatim>\<open>value\<close>.  No test bounds
  \<open>length = tag >> 1\<close>, which can be up to 127: when it exceeds 8 and the bytes are
  there, the copy runs past \<^verbatim>\<open>value\<close>, which is \<open>Undefined\<close>.
\<close>

definition Read_int64 :: "(64 word) reader" where
  "Read_int64 =
     bindD Read_uint8 (\<lambda>tag.
       if tag = 0 then returnD 0
       else
         let len = unat (drop_bit 1 tag) in
         bindD (Read_bytes len) (\<lambda>bs.
           if len > 8 then (\<lambda>d. Inl Undefined)
           else
             let value = (le_word bs :: 64 word) in
             returnD (if tag AND 0x1 = 1 then value else - value)))"


definition Read_bool :: "(8 word) reader" where
  "Read_bool = Read_T 1"

definition Read_short :: "(16 word) reader" where
  "Read_short = Read_T 2"

definition Read_float :: "(32 word) reader" where
  "Read_float = Read_T 4"

definition Read_double :: "(64 word) reader" where
  "Read_double = Read_T 8"

text \<open>\<^verbatim>\<open>const char* Read(uint16_t* size)\<close>: a 16-bit length, then that many bytes.\<close>

definition Read_str :: "(byte list) reader" where
  "Read_str = bindD Read_uint16 (\<lambda>sz d.
     if d_size d - d_offset d < unat sz then Inl BadDecode
     else Inr (take (unat sz) (drop (d_offset d) (d_ptr d)), d\<lparr>d_offset := d_offset d + unat sz\<rparr>))"

text \<open>A decoder over the whole of \<open>buf\<close> with its cursor at \<open>off\<close>.\<close>

definition cursor :: "byte list \<Rightarrow> nat \<Rightarrow> Decoder" where
  "cursor buf off = \<lparr>d_ptr = buf, d_offset = off, d_size = length buf\<rparr>"

section \<open>The host's values\<close>

text \<open>
  The codec reads and builds Lua values through the C API.  The model keeps what
  the codec can observe of a value: its type, and for a table its sequence part
  (the values under the keys \<open>1 .. n\<close>, which \<^verbatim>\<open>lua_rawlen\<close> measures and
  \<^verbatim>\<open>lua_rawgeti\<close> reads) and its record part (the values under string keys, which
  \<^verbatim>\<open>lua_getfield\<close> reads; \<open>LNil\<close> where the key is absent).  Metatables are not
  modelled.  A number is an integer or a double, the latter kept as its 64 bits; a
  light userdata stands for the bytes it points to.
\<close>

type_synonym lua_Integer = "64 word"
type_synonym lua_Number = "64 word"

datatype lua_Value =
    LNil
  | LBoolean bool
  | LLightUserdata "byte list"
  | LInteger lua_Integer
  | LNumber lua_Number
  | LString "byte list"
  | LTable "lua_Value list" "string \<Rightarrow> lua_Value"
  | LFunction
  | LUserdata
  | LThread

datatype lua_Type =
    LUA_TNIL | LUA_TBOOLEAN | LUA_TLIGHTUSERDATA | LUA_TNUMBER | LUA_TSTRING
  | LUA_TTABLE | LUA_TFUNCTION | LUA_TUSERDATA | LUA_TTHREAD

fun lua_type :: "lua_Value \<Rightarrow> lua_Type" where
  "lua_type LNil = LUA_TNIL"
| "lua_type (LBoolean b) = LUA_TBOOLEAN"
| "lua_type (LLightUserdata p) = LUA_TLIGHTUSERDATA"
| "lua_type (LInteger i) = LUA_TNUMBER"
| "lua_type (LNumber x) = LUA_TNUMBER"
| "lua_type (LString s) = LUA_TSTRING"
| "lua_type (LTable sq rc) = LUA_TTABLE"
| "lua_type LFunction = LUA_TFUNCTION"
| "lua_type LUserdata = LUA_TUSERDATA"
| "lua_type LThread = LUA_TTHREAD"

fun lua_typename :: "lua_Type \<Rightarrow> string" where
  "lua_typename LUA_TNIL = ''nil''"
| "lua_typename LUA_TBOOLEAN = ''boolean''"
| "lua_typename LUA_TLIGHTUSERDATA = ''userdata''"
| "lua_typename LUA_TNUMBER = ''number''"
| "lua_typename LUA_TSTRING = ''string''"
| "lua_typename LUA_TTABLE = ''table''"
| "lua_typename LUA_TFUNCTION = ''function''"
| "lua_typename LUA_TUSERDATA = ''userdata''"
| "lua_typename LUA_TTHREAD = ''thread''"

text \<open>
  The conversions between integers, doubles and floats are the host's; they are
  parameters of the model.  \<open>to_float\<close> is the cast \<^verbatim>\<open>(float)\<close> of a double,
  \<open>of_float\<close> the widening of a float to a double, \<open>int_to_number\<close> what
  \<^verbatim>\<open>lua_tonumber\<close> makes of an integer and \<open>number_to_int\<close> what \<^verbatim>\<open>lua_tointeger\<close>
  makes of a double.
\<close>

record Host =
  to_float :: "64 word \<Rightarrow> 32 word"
  of_float :: "32 word \<Rightarrow> 64 word"
  int_to_number :: "lua_Integer \<Rightarrow> lua_Number"
  number_to_int :: "lua_Number \<Rightarrow> lua_Integer"

fun lua_toboolean :: "lua_Value \<Rightarrow> bool" where
  "lua_toboolean LNil = False"
| "lua_toboolean (LBoolean b) = b"
| "lua_toboolean v = True"

fun lua_tointeger :: "Host \<Rightarrow> lua_Value \<Rightarrow> lua_Integer" where
  "lua_tointeger H (LInteger i) = i"
| "lua_tointeger H (LNumber x) = number_to_int H x"
| "lua_tointeger H v = 0"

fun lua_tonumber :: "Host \<Rightarrow> lua_Value \<Rightarrow> lua_Number" where
  "lua_tonumber H (LNumber x) = x"
| "lua_tonumber H (LInteger i) = int_to_number H i"
| "lua_tonumber H v = 0"

fun lua_tolstring :: "lua_Value \<Rightarrow> byte list" where
  "lua_tolstring (LString s) = s"
| "lua_tolstring v = []"

fun lua_rawlen :: "lua_Value \<Rightarrow> nat" where
  "lua_rawlen (LTable sq rc) = length sq"
| "lua_rawlen (LString s) = length s"
| "lua_rawlen v = 0"

fun lua_rawgeti :: "lua_Value \<Rightarrow> nat \<Rightarrow> lua_Value" where
  "lua_rawgeti (LTable sq rc) i = (if 1 \<le> i \<and> i \<le> length sq then sq ! (i - 1) else LNil)"
| "lua_rawgeti v i = LNil"

fun lua_getfield :: "lua_Value \<Rightarrow> string \<Rightarrow> lua_Value" where
  "lua_getfield (LTable sq rc) k = rc k"
| "lua_getfield v k = LNil"

definition lua_createtable :: lua_Value where
  "lua_createtable = LTable [] (\<lambda>k. LNil)"

fun lua_setfield :: "lua_Value \<Rightarrow> string \<Rightarrow> lua_Value \<Rightarrow> lua_Value" where
  "lua_setfield (LTable sq rc) k x = LTable sq (rc(k := x))"
| "lua_setfield v k x = v"

text \<open>
  \<^verbatim>\<open>lua_rawseti\<close> and \<^verbatim>\<open>lua_seti\<close> on a table without metatable: the key after the
  last one extends the sequence, a key inside it replaces the member.  The decoder
  writes the keys \<open>1 .. n\<close> of a new table in order, so no other key occurs.
\<close>

fun lua_rawseti :: "lua_Value \<Rightarrow> nat \<Rightarrow> lua_Value \<Rightarrow> lua_Value" where
  "lua_rawseti (LTable sq rc) i x =
     LTable (if i = Suc (length sq) then sq @ [x] else sq[i - 1 := x]) rc"
| "lua_rawseti v i x = v"

definition lua_seti :: "lua_Value \<Rightarrow> nat \<Rightarrow> lua_Value \<Rightarrow> lua_Value" where
  "lua_seti = lua_rawseti"

section \<open>The schema\<close>

text \<open>
  \<^verbatim>\<open>eTYPE\<close> (its enumerator \<^verbatim>\<open>Int\<close> is \<open>Int_t\<close> here), with \<open>Unknown\<close> for a code
  outside the enumerators, which the cast in \<^verbatim>\<open>ImportField\<close> lets through.  A \<^verbatim>\<open>Field\<close> has the members \<^verbatim>\<open>name_\<close>, \<^verbatim>\<open>array_\<close>,
  \<^verbatim>\<open>type_\<close> and \<^verbatim>\<open>childs_\<close>, a \<^verbatim>\<open>Protocol\<close> the members \<^verbatim>\<open>name_\<close> and \<^verbatim>\<open>fields_\<close>.
\<close>

datatype eTYPE = Bool | Short | Int_t | Float | Double | String | Pto | Unknown int

datatype Field = Field (f_name: string) (f_array: bool) (f_type: eTYPE) (f_childs: "Field list")

datatype Protocol = Protocol (p_name: string) (p_fields: "Field list")

definition MAX_DEPTH :: nat where
  "MAX_DEPTH = 128"

definition MAX_INT :: "64 word" where
  "MAX_INT = 0xffffffffffffff"


section \<open>The encoder\<close>

type_synonym writer = "Encoder \<Rightarrow> BadPto + Encoder"

text \<open>A loop over the members of a sequence; the first exception ends it.\<close>

primrec forE :: "'a list \<Rightarrow> ('a \<Rightarrow> writer) \<Rightarrow> writer" where
  "forE [] body enc = Inr enc"
| "forE (x # xs) body enc =
     (case body x enc of Inl e \<Rightarrow> Inl e | Inr enc' \<Rightarrow> forE xs body enc')"

definition BeginArray ::
  "Field \<Rightarrow> lua_Value \<Rightarrow> lua_Type \<Rightarrow> Encoder \<Rightarrow> BadPto + (16 word \<times> Encoder)" where
  "BeginArray field v vt enc =
     (if vt \<noteq> LUA_TTABLE then Inl (BadArrayType (f_name field) (lua_typename vt))
      else
        let sz = lua_rawlen v in
        if sz > 0xffff then Inl (BadArraySize (f_name field))
        else Inr (word_of_nat sz, Append_uint16 (word_of_nat sz) enc))"

text \<open>
  Each of \<^verbatim>\<open>EncodeBool\<close> .. \<^verbatim>\<open>EncodeString\<close> has two branches.  For an array field:
  \<^verbatim>\<open>BeginArray\<close>, then for \<open>i = 1 .. size\<close> the member \<^verbatim>\<open>lua_rawgeti(L, index, i)\<close> is
  checked and appended (\<open>encode_array\<close>).  Otherwise the value itself is checked and
  appended.  The check and the append are the same in both branches but for the
  flag given to the exception; they are the functions \<open>Encode\<dots>_value\<close>.
\<close>

definition encode_array :: "Field \<Rightarrow> lua_Value \<Rightarrow> (lua_Value \<Rightarrow> writer) \<Rightarrow> writer" where
  "encode_array field v body enc =
     (case BeginArray field v (lua_type v) enc of
        Inl e \<Rightarrow> Inl e
      | Inr (sz, enc') \<Rightarrow> forE (map (lua_rawgeti v) [1..<Suc (unat sz)]) body enc')"

definition EncodeBool_value :: "bool \<Rightarrow> Field \<Rightarrow> lua_Value \<Rightarrow> writer" where
  "EncodeBool_value array field v enc =
     (let vt = lua_type v in
      if vt \<noteq> LUA_TBOOLEAN then Inl (BadField array (f_name field) ''bool'' (lua_typename vt))
      else Inr (Append_bool (lua_toboolean v) enc))"

definition EncodeBool :: "Field \<Rightarrow> lua_Value \<Rightarrow> writer" where
  "EncodeBool field v =
     (if f_array field then encode_array field v (EncodeBool_value True field)
      else EncodeBool_value False field v)"

definition EncodeShort_value :: "Host \<Rightarrow> bool \<Rightarrow> Field \<Rightarrow> lua_Value \<Rightarrow> writer" where
  "EncodeShort_value H array field v enc =
     (let vt = lua_type v in
      if vt \<noteq> LUA_TNUMBER then Inl (BadField array (f_name field) ''short'' (lua_typename vt))
      else Inr (Append_short (ucast (lua_tointeger H v)) enc))"

definition EncodeShort :: "Host \<Rightarrow> Field \<Rightarrow> lua_Value \<Rightarrow> writer" where
  "EncodeShort H field v =
     (if f_array field then encode_array field v (EncodeShort_value H True field)
      else EncodeShort_value H False field v)"

definition EncodeInt_value :: "Host \<Rightarrow> bool \<Rightarrow> Field \<Rightarrow> lua_Value \<Rightarrow> writer" where
  "EncodeInt_value H array field v enc =
     (let vt = lua_type v in
      if vt \<noteq> LUA_TNUMBER then Inl (BadField array (f_name field) ''int'' (lua_typename vt))
      else
        let val = lua_tointeger H v in
        if MAX_INT <s val \<or> val <s - MAX_INT then Inl (BadInt (f_name field) val array)
        else Inr (Append_int64 val enc))"

definition EncodeInt :: "Host \<Rightarrow> Field \<Rightarrow> lua_Value \<Rightarrow> writer" where
  "EncodeInt H field v =
     (if f_array field then encode_array field v (EncodeInt_value H True field)
      else EncodeInt_value H False field v)"

definition EncodeFloat_value :: "Host \<Rightarrow> bool \<Rightarrow> Field \<Rightarrow> lua_Value \<Rightarrow> writer" where
  "EncodeFloat_value H array field v enc =
     (let vt = lua_type v in
      if vt \<noteq> LUA_TNUMBER then Inl (BadField array (f_name field) ''float'' (lua_typename vt))
      else Inr (Append_float (to_float H (lua_tonumber H v)) enc))"

definition EncodeFloat :: "Host \<Rightarrow> Field \<Rightarrow> lua_Value \<Rightarrow> writer" where
  "EncodeFloat H field v =
     (if f_array field then encode_array field v (EncodeFloat_value H True field)
      else EncodeFloat_value H False field v)"

definition EncodeDouble_value :: "Host \<Rightarrow> bool \<Rightarrow> Field \<Rightarrow> lua_Value \<Rightarrow> writer" where
  "EncodeDouble_value H array field v enc =
     (let vt = lua_type v in
      if vt \<noteq> LUA_TNUMBER then Inl (BadField array (f_name field) ''double'' (lua_typename vt))
      else Inr (Append_double (lua_tonumber H v) enc))"

definition EncodeDouble :: "Host \<Rightarrow> Field \<Rightarrow> lua_Value \<Rightarrow> writer" where
  "EncodeDouble H field v =
     (if f_array field then encode_array field v (EncodeDouble_value H True field)
      else EncodeDouble_value H False field v)"

definition EncodeString_value :: "bool \<Rightarrow> Field \<Rightarrow> lua_Value \<Rightarrow> writer" where
  "EncodeString_value array field v enc =
     (let vt = lua_type v in
      if vt \<noteq> LUA_TSTRING then Inl (BadField array (f_name field) ''string'' (lua_typename vt))
      else
        let str = lua_tolstring v in
        if length str > 0xffff then Inl (BadString (f_name field) (length str))
        else Inr (Append_str str enc))"

definition EncodeString :: "Field \<Rightarrow> lua_Value \<Rightarrow> writer" where
  "EncodeString field v =
     (if f_array field then encode_array field v (EncodeString_value True field)
      else EncodeString_value False field v)"

text \<open>
  \<^verbatim>\<open>EncodeOne\<close> and \<^verbatim>\<open>EncodePto\<close>.  The loops of \<^verbatim>\<open>EncodePto\<close> are functions of their
  own: \<open>EncodeChilds\<close> is the loop over \<^verbatim>\<open>childs_\<close> (fetch the child's value from the
  record with \<^verbatim>\<open>lua_getfield\<close>, encode it), \<open>EncodeMembers\<close> the loop over the members
  of an array of messages.  The value at a stack index is passed in place of the
  index.
\<close>

function (sequential) EncodeOne :: "Host \<Rightarrow> Field \<Rightarrow> lua_Value \<Rightarrow> nat \<Rightarrow> writer"
  and EncodePto :: "Host \<Rightarrow> Field \<Rightarrow> lua_Value \<Rightarrow> nat \<Rightarrow> writer"
  and EncodeChilds :: "Host \<Rightarrow> Field list \<Rightarrow> lua_Value \<Rightarrow> nat \<Rightarrow> writer"
  and EncodeMembers :: "Host \<Rightarrow> Field \<Rightarrow> lua_Value list \<Rightarrow> nat \<Rightarrow> writer"
where
  "EncodeOne H (Field name array ty childs) v depth enc =
     (case ty of
        Bool \<Rightarrow> EncodeBool (Field name array ty childs) v enc
      | Short \<Rightarrow> EncodeShort H (Field name array ty childs) v enc
      | Int_t \<Rightarrow> EncodeInt H (Field name array ty childs) v enc
      | Float \<Rightarrow> EncodeFloat H (Field name array ty childs) v enc
      | Double \<Rightarrow> EncodeDouble H (Field name array ty childs) v enc
      | String \<Rightarrow> EncodeString (Field name array ty childs) v enc
      | Pto \<Rightarrow> EncodePto H (Field name array ty childs) v depth enc
      | Unknown n \<Rightarrow> Inl (BadType name n))"
| "EncodePto H (Field name array ty childs) v depth0 enc =
     (let depth = depth0 + 1 in
      if depth > MAX_DEPTH then Inl (TooDepth True)
      else
        let vt = lua_type v in
        if vt \<noteq> LUA_TTABLE then Inl (BadField False name ''table'' (lua_typename vt))
        else if array then
          (case BeginArray (Field name array ty childs) v vt enc of
             Inl e \<Rightarrow> Inl e
           | Inr (sz, enc') \<Rightarrow>
               EncodeMembers H (Field name array ty childs)
                 (map (lua_rawgeti v) [1..<Suc (unat sz)]) depth enc')
        else EncodeChilds H childs v depth enc)"
| "EncodeChilds H [] v depth enc = Inr enc"
| "EncodeChilds H (child # rest) v depth enc =
     (case EncodeOne H child (lua_getfield v (f_name child)) depth enc of
        Inl e \<Rightarrow> Inl e
      | Inr enc' \<Rightarrow> EncodeChilds H rest v depth enc')"
| "EncodeMembers H (Field name array ty childs) [] depth enc = Inr enc"
| "EncodeMembers H (Field name array ty childs) (m # ms) depth enc =
     (let vt = lua_type m in
      if vt \<noteq> LUA_TTABLE then Inl (BadField True name ''table'' (lua_typename vt))
      else
        (case EncodeChilds H childs m depth enc of
           Inl e \<Rightarrow> Inl e
         | Inr enc' \<Rightarrow> EncodeMembers H (Field name array ty childs) ms depth enc'))"
  by pat_completeness auto
termination
  by (relation "measures [
      (\<lambda>x. case x of Inl (Inl (H, f, v, d, e)) \<Rightarrow> size f | Inl (Inr (H, f, v, d, e)) \<Rightarrow> size f
        | Inr (Inl (H, fs, v, d, e)) \<Rightarrow> size_list size fs | Inr (Inr (H, f, ms, d, e)) \<Rightarrow> size f),
      (\<lambda>x. case x of Inl (Inl (H, f, v, d, e)) \<Rightarrow> 3 | Inl (Inr (H, f, v, d, e)) \<Rightarrow> 2
        | Inr (Inl (H, fs, v, d, e)) \<Rightarrow> 0 | Inr (Inr (H, f, ms, d, e)) \<Rightarrow> 1),
      (\<lambda>x. case x of Inl (Inl (H, f, v, d, e)) \<Rightarrow> 0 | Inl (Inr (H, f, v, d, e)) \<Rightarrow> 0
        | Inr (Inl (H, fs, v, d, e)) \<Rightarrow> 0 | Inr (Inr (H, f, ms, d, e)) \<Rightarrow> length ms)]") auto

section \<open>The decoder\<close>

text \<open>A loop that threads the table being filled through the reads of its members.\<close>

primrec forD :: "nat list \<Rightarrow> (nat \<Rightarrow> 's \<Rightarrow> 's reader) \<Rightarrow> 's \<Rightarrow> 's reader" where
  "forD [] body s = returnD s"
| "forD (i # is) body s = bindD (body i s) (forD is body)"

text \<open>
  Each of \<^verbatim>\<open>DecodeBool\<close> .. \<^verbatim>\<open>DecodeString\<close> has two branches.  For an array field: read
  the 16-bit size, create a table, and for \<open>i = 1 .. size\<close> read a member, push it
  and store it under \<open>i\<close> (\<open>decode_array\<close>).  Otherwise read one value and push it.
  Both branches end in \<^verbatim>\<open>lua_setfield(L, index, field->name_)\<close>, which stores the value
  pushed last in the table at \<open>index\<close>.  Reading and pushing one value are the
  functions \<open>Decode\<dots>_value\<close>.
\<close>

definition decode_array :: "lua_Value reader \<Rightarrow> lua_Value reader" where
  "decode_array member =
     bindD Read_uint16 (\<lambda>sz.
       forD [1..<Suc (unat sz)]
         (\<lambda>i arr. bindD member (\<lambda>x. returnD (lua_rawseti arr i x))) lua_createtable)"

definition decode_field :: "Field \<Rightarrow> lua_Value \<Rightarrow> lua_Value reader \<Rightarrow> lua_Value reader" where
  "decode_field field tbl member =
     bindD (if f_array field then decode_array member else member)
       (\<lambda>x. returnD (lua_setfield tbl (f_name field) x))"

definition lua_pushboolean :: "8 word \<Rightarrow> lua_Value" where
  "lua_pushboolean b = LBoolean (b \<noteq> 0)"

definition DecodeBool_value :: "lua_Value reader" where
  "DecodeBool_value = bindD Read_bool (\<lambda>val. returnD (lua_pushboolean val))"

definition DecodeBool :: "Field \<Rightarrow> lua_Value \<Rightarrow> lua_Value reader" where
  "DecodeBool field tbl = decode_field field tbl DecodeBool_value"

definition DecodeShort_value :: "lua_Value reader" where
  "DecodeShort_value = bindD Read_short (\<lambda>val. returnD (LInteger (scast val)))"

definition DecodeShort :: "Field \<Rightarrow> lua_Value \<Rightarrow> lua_Value reader" where
  "DecodeShort field tbl = decode_field field tbl DecodeShort_value"

definition DecodeInt_value :: "lua_Value reader" where
  "DecodeInt_value = bindD Read_int64 (\<lambda>val. returnD (LInteger val))"

definition DecodeInt :: "Field \<Rightarrow> lua_Value \<Rightarrow> lua_Value reader" where
  "DecodeInt field tbl = decode_field field tbl DecodeInt_value"

definition DecodeFloat_value :: "Host \<Rightarrow> lua_Value reader" where
  "DecodeFloat_value H = bindD Read_float (\<lambda>val. returnD (LNumber (of_float H val)))"

definition DecodeFloat :: "Host \<Rightarrow> Field \<Rightarrow> lua_Value \<Rightarrow> lua_Value reader" where
  "DecodeFloat H field tbl = decode_field field tbl (DecodeFloat_value H)"

definition DecodeDouble_value :: "lua_Value reader" where
  "DecodeDouble_value = bindD Read_double (\<lambda>val. returnD (LNumber val))"

definition DecodeDouble :: "Field \<Rightarrow> lua_Value \<Rightarrow> lua_Value reader" where
  "DecodeDouble field tbl = decode_field field tbl DecodeDouble_value"

definition DecodeString_value :: "lua_Value reader" where
  "DecodeString_value = bindD Read_str (\<lambda>val. returnD (LString val))"

definition DecodeString :: "Field \<Rightarrow> lua_Value \<Rightarrow> lua_Value reader" where
  "DecodeString field tbl = decode_field field tbl DecodeString_value"

text \<open>
  \<^verbatim>\<open>DecodeOne\<close> and \<^verbatim>\<open>DecodePto\<close>.  \<open>DecodeChilds\<close> is the loop over \<^verbatim>\<open>childs_\<close>, which
  decodes every child into the table \<open>tbl\<close>; \<open>DecodeMembers\<close> is the loop over the
  members of an array of messages, which creates a table for each member, fills it
  and stores it under \<open>i\<close>.
\<close>

function (sequential) DecodeOne :: "Host \<Rightarrow> Field \<Rightarrow> lua_Value \<Rightarrow> nat \<Rightarrow> lua_Value reader"
  and DecodePto :: "Host \<Rightarrow> Field \<Rightarrow> lua_Value \<Rightarrow> nat \<Rightarrow> lua_Value reader"
  and DecodeChilds :: "Host \<Rightarrow> Field list \<Rightarrow> lua_Value \<Rightarrow> nat \<Rightarrow> lua_Value reader"
  and DecodeMembers :: "Host \<Rightarrow> Field \<Rightarrow> nat list \<Rightarrow> lua_Value \<Rightarrow> nat \<Rightarrow> lua_Value reader"
where
  "DecodeOne H (Field name array ty childs) tbl depth d =
     (case ty of
        Bool \<Rightarrow> DecodeBool (Field name array ty childs) tbl d
      | Short \<Rightarrow> DecodeShort (Field name array ty childs) tbl d
      | Int_t \<Rightarrow> DecodeInt (Field name array ty childs) tbl d
      | Float \<Rightarrow> DecodeFloat H (Field name array ty childs) tbl d
      | Double \<Rightarrow> DecodeDouble (Field name array ty childs) tbl d
      | String \<Rightarrow> DecodeString (Field name array ty childs) tbl d
      | Pto \<Rightarrow> DecodePto H (Field name array ty childs) tbl depth d
      | Unknown n \<Rightarrow> Inl (BadType name n))"
| "DecodePto H (Field name array ty childs) tbl depth0 d =
     (let depth = depth0 + 1 in
      if depth > MAX_DEPTH then Inl (TooDepth False)
      else if array then
        (case Read_uint16 d of
           Inl e \<Rightarrow> Inl e
         | Inr (sz, d1) \<Rightarrow>
             (case DecodeMembers H (Field name array ty childs) [1..<Suc (unat sz)]
                     lua_createtable depth d1 of
                Inl e \<Rightarrow> Inl e
              | Inr (arr, d2) \<Rightarrow> Inr (lua_setfield tbl name arr, d2)))
      else
        (case DecodeChilds H childs lua_createtable depth d of
           Inl e \<Rightarrow> Inl e
         | Inr (t, d1) \<Rightarrow> Inr (lua_setfield tbl name t, d1)))"
| "DecodeChilds H [] tbl depth d = Inr (tbl, d)"
| "DecodeChilds H (child # rest) tbl depth d =
     (case DecodeOne H child tbl depth d of
        Inl e \<Rightarrow> Inl e
      | Inr (tbl', d') \<Rightarrow> DecodeChilds H rest tbl' depth d')"
| "DecodeMembers H (Field name array ty childs) [] arr depth d = Inr (arr, d)"
| "DecodeMembers H (Field name array ty childs) (i # is) arr depth d =
     (case DecodeChilds H childs lua_createtable depth d of
        Inl e \<Rightarrow> Inl e
      | Inr (t, d') \<Rightarrow>
          DecodeMembers H (Field name array ty childs) is (lua_seti arr i t) depth d')"
  by pat_completeness auto
termination
  by (relation "measures [
      (\<lambda>x. case x of Inl (Inl (H, f, t, n, d)) \<Rightarrow> size f | Inl (Inr (H, f, t, n, d)) \<Rightarrow> size f
        | Inr (Inl (H, fs, t, n, d)) \<Rightarrow> size_list size fs
        | Inr (Inr (H, f, is, t, n, d)) \<Rightarrow> size f),
      (\<lambda>x. case x of Inl (Inl (H, f, t, n, d)) \<Rightarrow> 3 | Inl (Inr (H, f, t, n, d)) \<Rightarrow> 2
        | Inr (Inl (H, fs, t, n, d)) \<Rightarrow> 0 | Inr (Inr (H, f, is, t, n, d)) \<Rightarrow> 1),
      (\<lambda>x. case x of Inl (Inl (H, f, t, n, d)) \<Rightarrow> 0 | Inl (Inr (H, f, t, n, d)) \<Rightarrow> 0
        | Inr (Inl (H, fs, t, n, d)) \<Rightarrow> 0 | Inr (Inr (H, f, is, t, n, d)) \<Rightarrow> length is)]") auto

section \<open>Messages of the exceptions\<close>

text \<open>The decimal form that the formatting of a number produces.\<close>

fun show_nat :: "nat \<Rightarrow> string" where
  "show_nat n =
     (if n < 10 then [''0123456789'' ! n]
      else show_nat (n div 10) @ [''0123456789'' ! (n mod 10)])"

definition show_int :: "int \<Rightarrow> string" where
  "show_int i = (if i < 0 then CHR ''-'' # show_nat (nat (- i)) else show_nat (nat i))"

text \<open>
  \<^verbatim>\<open>reason_\<close>, as the constructor of each exception sets it (\<open>Undefined\<close>, which is
  no exception, has none).
\<close>

fun reason :: "BadPto \<Rightarrow> string" where
  "reason (BadArrayType field vt) = ''field:'' @ field @ '' expect table,not '' @ vt"
| "reason (BadArraySize field) = ''field:'' @ field @ '' array size more than 0xffff''"
| "reason (BadField array field expect vt) =
     (if array then ''field:'' @ field @ '' array member expect '' @ expect @ '',not '' @ vt
      else ''field:'' @ field @ '' expect '' @ expect @ '',not '' @ vt)"
| "reason (BadInt field val array) =
     (if array then ''field:'' @ field @ '' array member int out of range,'' @ show_int (sint val)
      else ''field:'' @ field @ '' int out of range,'' @ show_int (sint val))"
| "reason (BadString field sz) =
     ''field:'' @ field @ '' string size more than 0xffff:'' @ show_nat sz"
| "reason (BadType field ty) = ''unknown field:'' @ field @ '',type:'' @ show_int ty"
| "reason BadDecode = ''invalid message''"
| "reason (TooDepth encode) =
     (if encode then ''pto encode too depth'' else ''pto decode too depth'')"
| "reason Undefined = []"

section \<open>The registry and the functions exported to Lua\<close>

text \<open>
  A \<^verbatim>\<open>Context\<close> holds the vector \<^verbatim>\<open>ptos_\<close> of \<open>0xffff\<close> protocol pointers, null
  (\<open>None\<close>) until a protocol is added.  \<^verbatim>\<open>AddPto\<close> stores through \<^verbatim>\<open>ptos_[id]\<close> without
  a check; a store past the end of the vector has no defined result, which is the
  value \<open>None\<close> of \<open>AddPto\<close>.
\<close>

record Context =
  c_ptos :: "Protocol option list"

definition Context :: Context where
  "Context = \<lparr>c_ptos = replicate 0xffff None\<rparr>"

definition AddPto :: "16 word \<Rightarrow> Protocol \<Rightarrow> Context \<Rightarrow> Context option" where
  "AddPto pid pto ctx =
     (if unat pid < length (c_ptos ctx)
      then Some (ctx\<lparr>c_ptos := (c_ptos ctx)[unat pid := Some pto]\<rparr>)
      else None)"

definition GetPto :: "Context \<Rightarrow> 16 word \<Rightarrow> Protocol option" where
  "GetPto ctx pid = (if pid \<ge> 0xffff then None else c_ptos ctx ! unat pid)"

text \<open>
  How a call ends that returns no value: with an error raised through \<^verbatim>\<open>luaL_error\<close>,
  given with its message, or in a way this model does not determine (\<open>unspecified\<close>:
  undefined behaviour of the C++ code, or a step of Lua that is not modelled).
\<close>

datatype lua_error = luaL_error string | unspecified

text \<open>
  The handler \<^verbatim>\<open>catch (BadPto& e) { luaL_error(L, e.reason_.c_str()); }\<close>.  The reason
  is passed as the format of \<^verbatim>\<open>luaL_error\<close> with no further argument, so the error has
  the reason as its message when the reason holds no \<^verbatim>\<open>%\<close>; what a \<^verbatim>\<open>%\<close> in it (from
  the name of a field) leads to is not modelled.
\<close>

definition raise_reason :: "BadPto \<Rightarrow> lua_error" where
  "raise_reason e =
     (if e = Undefined \<or> CHR ''%'' \<in> set (reason e) then unspecified
      else luaL_error (reason e))"

text \<open>
  \<^verbatim>\<open>ImportPto\<close>, registered as \<open>Import\<close>.  The second argument is cast to \<^verbatim>\<open>uint16_t\<close>.
  The walk of the schema table by \<^verbatim>\<open>ImportField\<close> is not modelled: \<open>flds\<close> is the
  list of fields it builds.  The result is \<open>Inl\<close> for an error raised, \<open>Inr None\<close>
  for the store past the end of the vector.
\<close>

definition Import ::
  "Context \<Rightarrow> lua_Integer \<Rightarrow> string \<Rightarrow> Field list \<Rightarrow> lua_error + Context option" where
  "Import ctx arg2 name flds =
     (let pid = (ucast arg2 :: 16 word) in
      if unat pid > 0xffff then Inl (luaL_error ''id must less than 0xffff'')
      else Inr (AddPto pid (Protocol name flds) ctx))"

text \<open>
  \<^verbatim>\<open>EncodePto\<close>, registered as \<open>Encode\<close>.  Its loop over \<^verbatim>\<open>fields_\<close> fetches and encodes
  as the loop over \<^verbatim>\<open>childs_\<close> does, with \<open>depth = 1\<close>.  Fetching a field from a
  record that is no table is an error of Lua's own, but for a string, whose
  metatable answers the fetch: that case is not modelled.
\<close>

definition Encode :: "Host \<Rightarrow> Context \<Rightarrow> lua_Integer \<Rightarrow> lua_Value \<Rightarrow> lua_error + byte list" where
  "Encode H ctx arg2 rcd =
     (let pid = (ucast arg2 :: 16 word) in
      case GetPto ctx pid of
        None \<Rightarrow> Inl (luaL_error (''no such pto:'' @ show_nat (unat pid)))
      | Some pto \<Rightarrow>
          if p_fields pto \<noteq> [] \<and> lua_type rcd = LUA_TSTRING then Inl unspecified
          else if p_fields pto \<noteq> [] \<and> lua_type rcd \<noteq> LUA_TTABLE
          then Inl (luaL_error (''attempt to index a '' @ lua_typename (lua_type rcd) @ '' value''))
          else
            (case EncodeChilds H (p_fields pto) rcd 1 [] of
               Inl e \<Rightarrow> Inl (raise_reason e)
             | Inr enc \<Rightarrow> Inr enc))"

text \<open>
  \<^verbatim>\<open>DecodePto\<close>, registered as \<open>Decode\<close>.  The input is a string, or a light userdata
  with its length, which together denote the bytes \<open>LLightUserdata\<close> carries.  The
  length is narrowed to the \<^verbatim>\<open>int\<close> of the \<^verbatim>\<open>Decoder\<close>: for an input that does not
  \<open>fits_int\<close> the walk is not modelled.
\<close>

fun decode_input :: "lua_Value \<Rightarrow> byte list option" where
  "decode_input (LString s) = Some s"
| "decode_input (LLightUserdata mem) = Some mem"
| "decode_input v = None"

definition Decode :: "Host \<Rightarrow> Context \<Rightarrow> lua_Integer \<Rightarrow> lua_Value \<Rightarrow> lua_error + lua_Value" where
  "Decode H ctx arg2 arg3 =
     (let pid = (ucast arg2 :: 16 word) in
      case GetPto ctx pid of
        None \<Rightarrow> Inl (luaL_error (''no such pto:'' @ show_nat (unat pid)))
      | Some pto \<Rightarrow>
          (case decode_input arg3 of
             None \<Rightarrow>
               Inl (luaL_error (''decode protocol:'' @ p_name pto @ '' error,unkown type:''
                                  @ lua_typename (lua_type arg3)))
           | Some str \<Rightarrow>
               if \<not> fits_int str then Inl unspecified
               else
                 (case DecodeChilds H (p_fields pto) lua_createtable 1
                         (Decoder str (length str)) of
                    Inl e \<Rightarrow> Inl (raise_reason e)
                  | Inr (tbl, d) \<Rightarrow>
                      if d_offset d \<noteq> d_size d
                      then Inl (luaL_error (''decode protocol:'' @ p_name pto @ '' error''))
                      else Inr tbl)))"

section \<open>Auxiliary notions of the proofs\<close>

text \<open>The magnitude that \<^verbatim>\<open>Append(int64_t)\<close> stores in \<^verbatim>\<open>value\<close>.\<close>

definition magnitude :: "64 word \<Rightarrow> 64 word" where
  "magnitude val = (if val <s 0 then - val else val)"

text \<open>The name of a field's type in the messages of \<^verbatim>\<open>BadField\<close>.\<close>

definition type_word :: "eTYPE \<Rightarrow> string" where
  "type_word ty = (case ty of Bool \<Rightarrow> ''bool'' | Short \<Rightarrow> ''short'' | Int_t \<Rightarrow> ''int''
     | Float \<Rightarrow> ''float'' | Double \<Rightarrow> ''double'' | String \<Rightarrow> ''string'' | Pto \<Rightarrow> ''table''
     | Unknown n \<Rightarrow> [])"

text \<open>
  A host to evaluate the codec with on values that hold no floating-point number:
  its conversions move bits and are not those of a real host.
\<close>

definition Host0 :: Host where
  "Host0 = \<lparr>to_float = (\<lambda>x. ucast (drop_bit 32 x)), of_float = (\<lambda>x. push_bit 32 (ucast x)),
             int_to_number = (\<lambda>i. i), number_to_int = (\<lambda>x. 0)\<rparr>"

text \<open>
  The protocol \<open>P1 = { a: Bool, b: Short, c: Int, d: String }\<close>, registered under the
  id 1, and the record \<open>{a = true, b = -1, c = 0, d = "hi"}\<close>.
\<close>

definition P1_fields :: "Field list" where
  "P1_fields = [Field ''a'' False Bool [], Field ''b'' False Short [],
                Field ''c'' False Int_t [], Field ''d'' False String []]"

definition P1_record :: lua_Value where
  "P1_record = LTable [] ((\<lambda>k. LNil)(''a'' := LBoolean True, ''b'' := LInteger (- 1),
                                     ''c'' := LInteger 0, ''d'' := LString [0x68, 0x69]))"

definition P1_ctx :: Context where
  "P1_ctx = Context\<lparr>c_ptos := (c_ptos Context)[1 := Some (Protocol ''P1'' P1_fields)]\<rparr>"

text \<open>
  A read is \<open>prefix_stable\<close> when a success depends only on the bytes up to the
  cursor it returns: it succeeds alike on every buffer that starts with these bytes,
  and on a buffer cut before the returned cursor it raises \<^verbatim>\<open>BadDecode\<close>.
\<close>

definition prefix_stable :: "'a reader \<Rightarrow> bool" where
  "prefix_stable f \<longleftrightarrow>
     (\<forall>buf off x d'. off \<le> length buf \<longrightarrow> f (cursor buf off) = Inr (x, d') \<longrightarrow>
        (\<exists>off'. d' = cursor buf off' \<and> off \<le> off' \<and> off' \<le> length buf
           \<and> (\<forall>buf2. take off' buf2 = take off' buf \<longrightarrow>
                  f (cursor buf2 off) = Inr (x, cursor buf2 off'))
           \<and> (\<forall>n. off \<le> n \<and> n < off' \<longrightarrow> f (cursor (take n buf) off) = Inl BadDecode)))"

text \<open>
  The nesting of a field: how many Message fields lie in one another along its
  deepest branch, the field itself included.  \<open>message_chain k\<close> is a Message field
  of nesting \<open>k + 1\<close> (each Message holds the next as its only child \<open>m\<close>, the
  innermost has no children), \<open>chain_value k\<close> a value of that shape, and
  \<open>chain_ctx k\<close> a registry with the protocol \<open>deep = { m: message_chain k }\<close>
  under the id 1, whose records are the values \<open>chain_value (k + 1)\<close>.
\<close>

fun nesting :: "Field \<Rightarrow> nat" where
  "nesting (Field name array ty childs) =
     (if ty = Pto then Suc (foldr max (map nesting childs) 0) else 0)"

fun message_chain :: "nat \<Rightarrow> Field" where
  "message_chain 0 = Field ''m'' False Pto []"
| "message_chain (Suc k) = Field ''m'' False Pto [message_chain k]"

fun chain_value :: "nat \<Rightarrow> lua_Value" where
  "chain_value 0 = lua_createtable"
| "chain_value (Suc k) = lua_setfield lua_createtable ''m'' (chain_value k)"

definition chain_ctx :: "nat \<Rightarrow> Context" where
  "chain_ctx k =
     Context\<lparr>c_ptos := (c_ptos Context)[1 := Some (Protocol ''deep'' [message_chain k])]\<rparr>"

text \<open>A walk is \<open>depth_safe\<close> when it never raises \<^verbatim>\<open>TooDepth\<close>.\<close>

definition depth_safe :: "('s \<Rightarrow> BadPto + 'r) \<Rightarrow> bool" where
  "depth_safe f \<longleftrightarrow> (\<forall>s b. f s \<noteq> Inl (TooDepth b))"

section \<open>Little-endian bytes\<close>

declare show_nat.simps [simp del]

lemma length_le_bytes [simp]: "length (le_bytes n w) = n"
  by (induction n arbitrary: w) auto

lemma le_bytes_numeral [simp]:
  "le_bytes (numeral k) w = ucast w # le_bytes (pred_numeral k) (drop_bit 8 w)"
  by (simp add: numeral_eq_Suc)

lemma le_word_le_bytes: "(le_word (le_bytes n w) :: 'a::len word) = take_bit (8 * n) (w :: 'a word)"
proof (induction n arbitrary: w)
  case 0 then show ?case by simp
next
  case (Suc n)
  show ?case
    apply (simp add: Suc)
    apply (rule bit_word_eqI)
    apply (auto simp: bit_simps)
    done
qed

lemma le_bytes_map: "le_bytes n w = map (\<lambda>i. ucast (drop_bit (8 * i) w)) [0..<n]"
proof (induction n arbitrary: w)
  case 0 then show ?case by simp
next
  case (Suc n)
  have "[0..<Suc n] = 0 # map Suc [0..<n]"
    by (simp add: upt_conv_Cons map_Suc_upt del: upt_Suc)
  then show ?case
    by (simp add: Suc comp_def drop_bit_drop_bit add.commute del: upt_Suc)
qed

lemma magnitude_of_int:
  "magnitude x = word_of_int \<bar>sint x\<bar>"
  by (simp add: magnitude_def word_sless_alt abs_if)

lemma uint_magnitude:
  assumes "- (2 ^ 56 - 1) \<le> sint x" "sint x \<le> 2 ^ 56 - 1"
  shows "uint (magnitude x) = \<bar>sint x\<bar>"
proof -
  have "\<bar>sint x\<bar> < 2 ^ 64" using assms by simp
  then show ?thesis
    by (simp add: magnitude_of_int uint_word_of_int take_bit_int_eq_self)
qed


section \<open>The variable-length integer\<close>

lemma varint_length_range: "1 \<le> varint_length v \<and> varint_length v \<le> 7"
  by (simp add: varint_length_def)

lemma varint_length_upper:
  assumes "uint v \<le> 2 ^ 56 - 1"
  shows "uint v < 2 ^ (8 * varint_length v)"
  using assms by (simp add: varint_length_def word_le_def)

lemma varint_length_lower:
  assumes "1 \<le> k" "k < varint_length v"
  shows "2 ^ (8 * k) \<le> uint v"
proof -
  have *: "(2::int) ^ (8 * k) \<le> 2 ^ (8 * j)" if "k < Suc j" for j
    using that by (intro power_increasing) simp_all
  show ?thesis
    using assms *[of 1] *[of 2] *[of 3] *[of 4] *[of 5] *[of 6]
    by (simp add: varint_length_def word_le_def split: if_splits)
qed

lemma take_bit_varint:
  assumes "uint v \<le> 2 ^ 56 - 1"
  shows "take_bit (8 * varint_length v) v = v"
proof -
  have "take_bit (8 * varint_length v) (uint v) = uint v"
    using varint_length_upper[OF assms] by (simp add: take_bit_int_eq_self)
  then show ?thesis
    by (simp add: word_eq_iff_unsigned[where ?'a = int] unsigned_take_bit_eq)
qed


lemma Read_T_cursor:
  "Read_T (length bs) (cursor (pre @ bs @ suf) (length pre)) =
     Inr (le_word bs, cursor (pre @ bs @ suf) (length pre + length bs))"
  by (simp add: Read_T_def cursor_def)

lemma Read_bytes_cursor:
  "Read_bytes (length bs) (cursor (pre @ bs @ suf) (length pre)) =
     Inr (bs, cursor (pre @ bs @ suf) (length pre + length bs))"
  by (simp add: Read_bytes_def cursor_def)

lemma varint_tag:
  assumes "l \<in> {1..7}" "s \<in> {0, 1}"
  shows "(push_bit 1 (word_of_nat l :: 8 word) OR s) \<noteq> 0
       \<and> unat (drop_bit 1 (push_bit 1 (word_of_nat l :: 8 word) OR s)) = l
       \<and> (push_bit 1 (word_of_nat l :: 8 word) OR s) AND 1 = s"
proof -
  from assms(1) have "l = 1 \<or> l = 2 \<or> l = 3 \<or> l = 4 \<or> l = 5 \<or> l = 6 \<or> l = 7"
    by auto
  then show ?thesis using assms(2) by auto
qed

lemma Read_int64_varint:
  assumes "- (2 ^ 56 - 1) \<le> sint x" "sint x \<le> 2 ^ 56 - 1"
  shows "Read_int64 (cursor (pre @ varint_data x @ suf) (length pre)) =
     Inr (x, cursor (pre @ varint_data x @ suf) (length pre + length (varint_data x)))"
proof (cases "x = 0")
  case True
  then show ?thesis
    using Read_T_cursor[of "[0]" pre suf, where ?'a = 8]
    by (simp add: Read_int64_def Read_uint8_def varint_data_def bindD_def returnD_def)
next
  case False
  define v where "v = magnitude x"
  define l where "l = varint_length v"
  define s :: "8 word" where "s = (if x <s 0 then 0 else 1)"
  define tag where "tag = push_bit 1 (word_of_nat l :: 8 word) OR s"
  have data: "varint_data x = tag # le_bytes l v"
    using False by (simp add: varint_data_def Let_def tag_def s_def l_def v_def magnitude_def)
  have uv: "uint v \<le> 2 ^ 56 - 1"
    using uint_magnitude[OF assms] assms by (simp add: v_def)
  have l: "l \<in> {1..7}" using varint_length_range[of v] by (simp add: l_def)
  have s: "s \<in> {0, 1}" by (simp add: s_def)
  note tg = varint_tag[OF l s, folded tag_def]
  have r1: "Read_uint8 (cursor (pre @ varint_data x @ suf) (length pre)) =
      Inr (tag, cursor (pre @ varint_data x @ suf) (length pre + 1))"
    using Read_T_cursor[of "[tag]" pre "le_bytes l v @ suf", where ?'a = 8]
    by (simp add: data Read_uint8_def)
  have r2: "Read_bytes l (cursor (pre @ varint_data x @ suf) (length pre + 1)) =
      Inr (le_bytes l v, cursor (pre @ varint_data x @ suf) (length pre + 1 + l))"
    using Read_bytes_cursor[of "le_bytes l v" "pre @ [tag]" suf]
    by (simp add: data)
  have val: "(le_word (le_bytes l v) :: 64 word) = v"
    using take_bit_varint[OF uv] by (simp add: le_word_le_bytes l_def)
  have sgn: "s = 1 \<Longrightarrow> v = x" "s \<noteq> 1 \<Longrightarrow> - v = x"
    by (simp_all add: s_def v_def magnitude_def split: if_splits)
  have res: "Read_int64 (cursor (pre @ varint_data x @ suf) (length pre)) =
      Inr (if tag AND 1 = 1 then le_word (le_bytes l v) else - le_word (le_bytes l v),
           cursor (pre @ varint_data x @ suf) (length pre + 1 + l))"
    using tg r1 r2 l by (simp add: Read_int64_def bindD_def returnD_def Let_def)
  have "(if tag AND 1 = 1 then (le_word (le_bytes l v) :: 64 word) else - le_word (le_bytes l v)) = x"
    unfolding val using tg sgn by auto
  then show ?thesis
    unfolding res by (simp add: data)
qed


lemma magnitude_byte:
  "(ucast (drop_bit (8 * i) (magnitude x)) :: 8 word) = word_of_int (uint (magnitude x) div 256 ^ i)"
proof -
  have "(256::int) ^ i = 2 ^ (8 * i)" by (simp add: power_mult)
  then show ?thesis
    apply (simp only:)
    apply (rule bit_word_eqI)
    apply (auto simp: bit_simps simp flip: drop_bit_eq_div)
    done
qed


text \<open>
  Claim C1 (varint7 shape).  For every integer \<open>x\<close> with
  \<open>- (2^56 - 1) \<le> x \<le> 2^56 - 1\<close>: reading a variable-length integer from the bytes
  that \<^verbatim>\<open>Append(int64_t)\<close> writes for \<open>x\<close> returns \<open>x\<close> with the cursor at the end; the
  bytes written for 0 are the single byte \<open>0x00\<close>; and for \<open>x \<noteq> 0\<close> the bytes are one
  tag byte \<open>(l << 1) | sign\<close> (sign 1 for a positive \<open>x\<close>, 0 for a negative one)
  followed by the \<open>l\<close> low bytes of \<open>|x|\<close>, least significant first, where \<open>l\<close> is
  the least number in \<open>1 .. 7\<close> with \<open>|x| < 2^(8 l)\<close>.
\<close>

theorem varint7_shape:
  assumes "- (2 ^ 56 - 1) \<le> sint x" and "sint x \<le> 2 ^ 56 - 1"
  shows "Read_int64 (Decoder (Append_int64 x []) (length (Append_int64 x []))) =
           Inr (x, \<lparr>d_ptr = Append_int64 x [], d_offset = length (Append_int64 x []),
                     d_size = length (Append_int64 x [])\<rparr>)
       \<and> Append_int64 0 [] = [0x00]
       \<and> (x \<noteq> 0 \<longrightarrow>
            (\<exists>l. 1 \<le> l \<and> l \<le> 7 \<and> \<bar>sint x\<bar> < 2 ^ (8 * l)
               \<and> (\<forall>k. 1 \<le> k \<and> k < l \<longrightarrow> 2 ^ (8 * k) \<le> \<bar>sint x\<bar>)
               \<and> Append_int64 x [] =
                   (push_bit 1 (word_of_nat l) OR (if 0 < sint x then 1 else 0))
                   # map (\<lambda>i. word_of_int (\<bar>sint x\<bar> div 256 ^ i)) [0..<l]))"
proof (intro conjI impI)
  show "Read_int64 (Decoder (Append_int64 x []) (length (Append_int64 x []))) =
           Inr (x, \<lparr>d_ptr = Append_int64 x [], d_offset = length (Append_int64 x []),
                     d_size = length (Append_int64 x [])\<rparr>)"
    using Read_int64_varint[OF assms, of "[]" "[]"]
    by (simp add: cursor_def Decoder_def Append_int64_def Append_def)
  show "Append_int64 0 [] = [0x00]"
    by (simp add: Append_int64_def Append_def varint_data_def)
  assume nz: "x \<noteq> 0"
  define v where "v = magnitude x"
  define l where "l = varint_length v"
  have uv: "uint v = \<bar>sint x\<bar>"
    using uint_magnitude[OF assms] by (simp add: v_def)
  have le: "uint v \<le> 2 ^ 56 - 1" using assms unfolding uv by simp
  have sg: "(if x <s 0 then 0 else 1 :: 8 word) = (if 0 < sint x then 1 else 0)"
    using nz by (auto simp: word_sless_alt signed_eq_0_iff)
  have bytes: "le_bytes l v = map (\<lambda>i. word_of_int (\<bar>sint x\<bar> div 256 ^ i)) [0..<l]"
    unfolding le_bytes_map v_def magnitude_byte uv[unfolded v_def] ..
  have "Append_int64 x [] = (push_bit 1 (word_of_nat l) OR (if x <s 0 then 0 else 1)) # le_bytes l v"
    using nz
    by (simp add: Append_int64_def Append_def varint_data_def Let_def l_def v_def magnitude_def)
  then have "Append_int64 x [] =
      (push_bit 1 (word_of_nat l) OR (if 0 < sint x then 1 else 0))
      # map (\<lambda>i. word_of_int (\<bar>sint x\<bar> div 256 ^ i)) [0..<l]"
    unfolding bytes sg .
  moreover have "\<bar>sint x\<bar> < 2 ^ (8 * l)"
    using varint_length_upper[OF le] by (simp add: uv l_def)
  moreover have "\<forall>k. 1 \<le> k \<and> k < l \<longrightarrow> 2 ^ (8 * k) \<le> \<bar>sint x\<bar>"
    using varint_length_lower[of _ v] by (simp add: uv l_def)
  moreover have "1 \<le> l \<and> l \<le> 7"
    using varint_length_range[of v] by (simp add: l_def)
  ultimately show "\<exists>l. 1 \<le> l \<and> l \<le> 7 \<and> \<bar>sint x\<bar> < 2 ^ (8 * l)
               \<and> (\<forall>k. 1 \<le> k \<and> k < l \<longrightarrow> 2 ^ (8 * k) \<le> \<bar>sint x\<bar>)
               \<and> Append_int64 x [] =
                   (push_bit 1 (word_of_nat l) OR (if 0 < sint x then 1 else 0))
                   # map (\<lambda>i. word_of_int (\<bar>sint x\<bar> div 256 ^ i)) [0..<l]"
    by blast
qed

theorem varint7_shape_witness:
  "- (2 ^ 56 - 1) \<le> sint (300 :: 64 word) \<and> sint (300 :: 64 word) \<le> 2 ^ 56 - 1
   \<and> Read_int64 (Decoder [0x05, 0x2C, 0x01] 3) =
        Inr (300, \<lparr>d_ptr = [0x05, 0x2C, 0x01], d_offset = 3, d_size = 3\<rparr>)
   \<and> Append_int64 300 [] = [0x05, 0x2C, 0x01]"
proof -
  have a: "- (2 ^ 56 - 1) \<le> sint (300 :: 64 word)" by simp
  have b: "sint (300 :: 64 word) \<le> 2 ^ 56 - 1" by simp
  have c: "Append_int64 300 [] = [0x05, 0x2C, 0x01]"
    by (simp add: Append_int64_def Append_def varint_data_def varint_length_def word_sless_alt)
  have d: "length [0x05, 0x2C, 0x01 :: byte] = 3" by simp
  show ?thesis
    using varint7_shape[OF a b, unfolded c d] a b c by blast
qed

section \<open>Reads at a cursor\<close>

lemma Read_bytes_short:
  "length buf - off < n \<Longrightarrow> Read_bytes n (cursor buf off) = Inl BadDecode"
  by (simp add: Read_bytes_def cursor_def)

lemma Read_bytes_enough:
  "n \<le> length buf - off \<Longrightarrow>
   Read_bytes n (cursor buf off) = Inr (take n (drop off buf), cursor buf (off + n))"
  by (simp add: Read_bytes_def cursor_def)

section \<open>The decoder's treatment of tags and of booleans\<close>

text \<open>
  Claim C9 (the length of a tag is not validated).  For every tag byte whose length
  field \<open>tag >> 1\<close> is 8 or more (it is at most 127), \<^verbatim>\<open>Read()\<close> does not reject
  the tag as malformed: it raises \<^verbatim>\<open>BadDecode\<close> exactly when fewer than \<open>tag >> 1\<close>
  bytes follow the tag, and otherwise goes on to copy \<open>tag >> 1\<close> bytes into its
  8-byte local.  With a length field of 8 the copy fits and a value is returned,
  the cursor past the tag and 8 bytes; with a length field of 9 to 127 the copy
  runs past the local, which is undefined behaviour and no exception.  The encoder
  never writes such a tag: the length field of the first byte it writes for an
  integer is at most 7.
\<close>

theorem varint_tag_unvalidated:
  assumes "8 \<le> unat (drop_bit 1 tag)"
  shows "(Read_int64 (cursor (tag # rest) 0) = Inl BadDecode \<longleftrightarrow>
            length rest < unat (drop_bit 1 tag))
       \<and> (unat (drop_bit 1 tag) \<le> length rest \<and> unat (drop_bit 1 tag) = 8 \<longrightarrow>
            Read_int64 (cursor (tag # rest) 0) =
              Inr (if tag AND 1 = 1 then le_word (take 8 rest) else - le_word (take 8 rest),
                   cursor (tag # rest) 9))
       \<and> (unat (drop_bit 1 tag) \<le> length rest \<and> 8 < unat (drop_bit 1 tag) \<longrightarrow>
            Read_int64 (cursor (tag # rest) 0) = Inl Undefined)
       \<and> (\<forall>x. unat (drop_bit 1 (hd (Append_int64 x []))) \<le> 7)"
proof -
  define len where "len = unat (drop_bit 1 tag)"
  have nz: "tag \<noteq> 0" using assms by auto
  have r1: "Read_uint8 (cursor (tag # rest) 0) = Inr (tag, cursor (tag # rest) 1)"
    using Read_T_cursor[of "[tag]" "[]" rest, where ?'a = 8] by (simp add: Read_uint8_def)
  have short: "Read_int64 (cursor (tag # rest) 0) = Inl BadDecode" if "length rest < len"
    using that nz r1 Read_bytes_short[of "tag # rest" 1 len]
    by (simp add: Read_int64_def bindD_def Let_def len_def)
  have fits: "Read_int64 (cursor (tag # rest) 0) =
              Inr (if tag AND 1 = 1 then le_word (take 8 rest) else - le_word (take 8 rest),
                   cursor (tag # rest) 9)" if "len \<le> length rest" "len = 8"
    using that nz r1 Read_bytes_enough[of len "tag # rest" 1]
    by (simp add: Read_int64_def bindD_def returnD_def Let_def len_def)
  have over: "Read_int64 (cursor (tag # rest) 0) = Inl Undefined" if "len \<le> length rest" "8 < len"
    using that nz r1 Read_bytes_enough[of len "tag # rest" 1]
    by (simp add: Read_int64_def bindD_def Let_def len_def)
  have a: "Read_int64 (cursor (tag # rest) 0) = Inl BadDecode \<longleftrightarrow> length rest < len"
  proof (cases "length rest < len")
    case True
    then show ?thesis using short by simp
  next
    case False
    then have "len \<le> length rest" by simp
    moreover have "len = 8 \<or> 8 < len" using assms by (auto simp: len_def)
    ultimately show ?thesis using fits over False by auto
  qed
  have c: "unat (drop_bit 1 (hd (Append_int64 x []))) \<le> 7" for x
  proof (cases "x = 0")
    case True
    then show ?thesis by (simp add: Append_int64_def Append_def varint_data_def)
  next
    case False
    define l where "l = varint_length (magnitude x)"
    define s :: "8 word" where "s = (if x <s 0 then 0 else 1)"
    have l: "l \<in> {1..7}"
      using varint_length_range[of "magnitude x"] by (simp add: l_def)
    have s: "s \<in> {0, 1}" by (simp add: s_def)
    have "hd (Append_int64 x []) = push_bit 1 (word_of_nat l) OR s"
      using False
      by (simp add: Append_int64_def Append_def varint_data_def Let_def magnitude_def l_def s_def)
    then show ?thesis
      using varint_tag[OF l s] l by simp
  qed
  show ?thesis using a fits over c unfolding len_def by blast
qed

theorem varint_tag_unvalidated_witness:
  "8 \<le> unat (drop_bit 1 (0x13 :: 8 word))
   \<and> 8 \<le> unat (drop_bit 1 (0x11 :: 8 word))
   \<and> Read_int64 (cursor [0x13, 1, 2, 3] 0) = Inl BadDecode
   \<and> Read_int64 (cursor [0x13, 1, 0, 0, 0, 0, 0, 0, 0, 0] 0) = Inl Undefined
   \<and> Read_int64 (cursor [0x11, 1, 0, 0, 0, 0, 0, 0, 0] 0) =
       Inr (1, cursor [0x11, 1, 0, 0, 0, 0, 0, 0, 0] 9)"
proof -
  have h: "8 \<le> unat (drop_bit 1 (0x13 :: 8 word))" by simp
  have u: "unat (drop_bit 1 (0x13 :: 8 word)) = 9" by simp
  have h': "8 \<le> unat (drop_bit 1 (0x11 :: 8 word))" by simp
  have u': "unat (drop_bit 1 (0x11 :: 8 word)) = 8" by simp
  have a: "Read_int64 (cursor [0x13, 1, 2, 3] 0) = Inl BadDecode"
    using varint_tag_unvalidated[OF h, of "[1, 2, 3]"] unfolding u by simp
  have b: "Read_int64 (cursor [0x13, 1, 0, 0, 0, 0, 0, 0, 0, 0] 0) = Inl Undefined"
    using varint_tag_unvalidated[OF h, of "[1, 0, 0, 0, 0, 0, 0, 0, 0]"] unfolding u by simp
  have c: "Read_int64 (cursor [0x11, 1, 0, 0, 0, 0, 0, 0, 0] 0) =
       Inr (1, cursor [0x11, 1, 0, 0, 0, 0, 0, 0, 0] 9)"
    using varint_tag_unvalidated[OF h', of "[1, 0, 0, 0, 0, 0, 0, 0]"] unfolding u' by simp
  show ?thesis using h h' a b c by blast
qed

text \<open>
  Claim C10 (lenient Bool decode).  The Bool decoder accepts every byte: the byte
  \<open>0x00\<close> decodes to false and every other byte to true, both for one value and
  through \<^verbatim>\<open>DecodeBool\<close> on a field that is no array; it does not fail when the byte
  is in the buffer.
\<close>

theorem bool_decode_lenient:
  "DecodeBool_value (cursor (pre @ b # suf) (length pre)) =
     Inr (LBoolean (b \<noteq> 0), cursor (pre @ b # suf) (length pre + 1))
   \<and> DecodeBool (Field name False ty childs) tbl (cursor (pre @ b # suf) (length pre)) =
     Inr (lua_setfield tbl name (LBoolean (b \<noteq> 0)), cursor (pre @ b # suf) (length pre + 1))"
  using Read_T_cursor[of "[b]" pre suf, where ?'a = 8]
  by (simp add: DecodeBool_def DecodeBool_value_def decode_field_def Read_bool_def bindD_def
      returnD_def lua_pushboolean_def)

theorem bool_decode_lenient_witness:
  "DecodeBool_value (cursor [0x02] 0) = Inr (LBoolean True, cursor [0x02] 1)
   \<and> DecodeBool_value (cursor [0x00] 0) = Inr (LBoolean False, cursor [0x00] 1)"
  using bool_decode_lenient[of "[]" "0x02" "[]"] bool_decode_lenient[of "[]" "0x00" "[]"]
  by simp

section \<open>The scenario P1\<close>

lemma P1_Import: "Import Context 1 ''P1'' P1_fields = Inr (Some P1_ctx)"
  by (simp add: Import_def AddPto_def Context_def P1_ctx_def)

lemma P1_GetPto: "GetPto P1_ctx 1 = Some (Protocol ''P1'' P1_fields)"
  by (simp add: GetPto_def P1_ctx_def Context_def word_le_nat_alt)

lemma ucast_minus_one_short: "(ucast (- 1 :: 64 word) :: 16 word) = 0xFFFF"
  by code_simp

lemma P1_Encode:
  "Encode H P1_ctx 1 P1_record = Inr [0x01, 0xFF, 0xFF, 0x00, 0x02, 0x00, 0x68, 0x69]"
  by (simp add: Encode_def P1_GetPto P1_fields_def P1_record_def ucast_minus_one_short
      EncodeBool_def EncodeBool_value_def EncodeShort_def EncodeShort_value_def
      EncodeInt_def EncodeInt_value_def EncodeString_def EncodeString_value_def
      Append_def Append_bool_def Append_short_def Append_int64_def Append_str_def
      Append_uint16_def varint_data_def MAX_INT_def word_sless_alt)

lemma P1_Decode:
  "Decode H P1_ctx 1 (LString [0x01, 0xFF, 0xFF, 0x00, 0x02, 0x00, 0x68, 0x69]) = Inr P1_record"
  by (simp add: Decode_def P1_GetPto P1_fields_def P1_record_def
      DecodeBool_def DecodeBool_value_def DecodeShort_def DecodeShort_value_def
      DecodeInt_def DecodeInt_value_def DecodeString_def DecodeString_value_def
      decode_field_def bindD_def returnD_def Read_bool_def Read_short_def Read_int64_def
      Read_str_def Read_uint8_def Read_uint16_def Read_T_def Decoder_def
      lua_createtable_def lua_pushboolean_def fits_int_def)

text \<open>
  Claim C3 (concrete encoding).  With \<open>P1 = { a: Bool, b: Short, c: Int, d: String }\<close>
  registered, encoding the record \<open>{a = true, b = -1, c = 0, d = "hi"}\<close> gives
  exactly the 8 bytes \<open>01 FF FF 00 02 00 68 69\<close>, and decoding these bytes under
  \<open>P1\<close> gives the record back.
\<close>

theorem P1_concrete_encoding:
  "Import Context 1 ''P1'' P1_fields = Inr (Some P1_ctx)
   \<and> Encode H P1_ctx 1 P1_record = Inr [0x01, 0xFF, 0xFF, 0x00, 0x02, 0x00, 0x68, 0x69]
   \<and> Decode H P1_ctx 1 (LString [0x01, 0xFF, 0xFF, 0x00, 0x02, 0x00, 0x68, 0x69]) = Inr P1_record"
  using P1_Import P1_Encode P1_Decode by blast

theorem P1_concrete_encoding_witness:
  "Encode Host0 P1_ctx 1 P1_record = Inr [0x01, 0xFF, 0xFF, 0x00, 0x02, 0x00, 0x68, 0x69]
   \<and> Decode Host0 P1_ctx 1 (LString [0x01, 0xFF, 0xFF, 0x00, 0x02, 0x00, 0x68, 0x69]) =
       Inr P1_record"
  using P1_concrete_encoding[of Host0] by blast

section \<open>The range of ids\<close>

text \<open>
  Claim C7 (id range).  The registry has the \<open>0xFFFF\<close> slots of the ids
  \<open>0 .. 0xFFFE\<close>, and looking the id \<open>0xFFFF\<close> up fails (\<^verbatim>\<open>GetPto\<close> returns null and
  \<open>Encode\<close> and \<open>Decode\<close> raise "no such pto:65535").  \<open>Import\<close> however rejects no
  id: its test \<^verbatim>\<open>id > 0xffff\<close> on a 16-bit id is never true, so that for the id
  \<open>0xFFFF\<close> no error is raised and \<^verbatim>\<open>AddPto\<close> stores past the end of the vector.
\<close>

lemma show_nat_65535: "show_nat 65535 = ''65535''"
  by (simp add: show_nat.simps)

theorem import_accepts_0xFFFF:
  "length (c_ptos Context) = 0xFFFF
   \<and> Import Context 0xFFFF name flds = Inr None
   \<and> (\<forall>e. Import ctx arg2 name flds \<noteq> Inl e)
   \<and> GetPto ctx 0xFFFF = None
   \<and> Encode H ctx 0xFFFF rcd = Inl (luaL_error ''no such pto:65535'')
   \<and> Decode H ctx 0xFFFF arg3 = Inl (luaL_error ''no such pto:65535'')"
proof -
  have "unat (ucast arg2 :: 16 word) \<le> 0xffff"
    using unsigned_less[of "ucast arg2 :: 16 word", where ?'a = nat] by simp
  then have "\<forall>e. Import ctx arg2 name flds \<noteq> Inl e"
    by (simp add: Import_def Let_def)
  moreover have "GetPto ctx 0xFFFF = None" by (simp add: GetPto_def)
  ultimately show ?thesis
    by (simp add: Context_def Import_def AddPto_def Encode_def Decode_def show_nat_65535)
qed

section \<open>Absent fields\<close>

text \<open>
  Against claim C8 as stated: for the array field \<open>xs\<close> of type Int, a record without
  \<open>xs\<close> makes the encoder raise \<^verbatim>\<open>BadArrayType\<close>, not \<^verbatim>\<open>BadField\<close>.
\<close>

theorem absent_array_counterexample:
  "lua_getfield (LTable [] (\<lambda>k. LNil)) ''xs'' = LNil
   \<and> EncodeOne Host0 (Field ''xs'' True Int_t [])
        (lua_getfield (LTable [] (\<lambda>k. LNil)) ''xs'') 1 [] = Inl (BadArrayType ''xs'' ''nil'')"
  by (simp add: EncodeInt_def encode_array_def BeginArray_def)

lemmas Encode_value_defs = EncodeBool_def EncodeBool_value_def EncodeShort_def EncodeShort_value_def
  EncodeInt_def EncodeInt_value_def EncodeFloat_def EncodeFloat_value_def
  EncodeDouble_def EncodeDouble_value_def EncodeString_def EncodeString_value_def

text \<open>
  Claim C8 (absent fields), amended.  When the record holds no value under a field's
  name, encoding the field raises \<^verbatim>\<open>BadField\<close> ("expect \<dots>,not nil") if the field
  is of a type \<open>Bool .. String\<close> and no array, or is a Message field (array or not)
  within the depth bound; it raises \<^verbatim>\<open>BadArrayType\<close> ("expect table,not nil") if
  the field is an array of a type \<open>Bool .. String\<close>.
\<close>

theorem absent_field_rejected:
  assumes "lua_getfield rcd name = LNil"
  shows "(ty \<in> {Bool, Short, Int_t, Float, Double, String} \<and> \<not> array \<longrightarrow>
            EncodeOne H (Field name array ty childs) (lua_getfield rcd name) depth enc =
              Inl (BadField False name (type_word ty) ''nil''))
       \<and> (ty \<in> {Bool, Short, Int_t, Float, Double, String} \<and> array \<longrightarrow>
            EncodeOne H (Field name array ty childs) (lua_getfield rcd name) depth enc =
              Inl (BadArrayType name ''nil''))
       \<and> (ty = Pto \<and> depth + 1 \<le> MAX_DEPTH \<longrightarrow>
            EncodeOne H (Field name array ty childs) (lua_getfield rcd name) depth enc =
              Inl (BadField False name ''table'' ''nil''))"
  unfolding assms
  by (auto simp: Encode_value_defs encode_array_def BeginArray_def type_word_def)

theorem absent_field_rejected_witness:
  "lua_getfield (LTable [] (\<lambda>k. LNil)) ''a'' = LNil
   \<and> EncodeOne Host0 (Field ''a'' False Bool []) (lua_getfield (LTable [] (\<lambda>k. LNil)) ''a'') 1 [] =
        Inl (BadField False ''a'' ''bool'' ''nil'')
   \<and> EncodeOne Host0 (Field ''a'' True String []) (lua_getfield (LTable [] (\<lambda>k. LNil)) ''a'') 1 [] =
        Inl (BadArrayType ''a'' ''nil'')
   \<and> EncodeOne Host0 (Field ''a'' True Pto []) (lua_getfield (LTable [] (\<lambda>k. LNil)) ''a'') 1 [] =
        Inl (BadField False ''a'' ''table'' ''nil'')"
proof -
  have h: "lua_getfield (LTable [] (\<lambda>k. LNil)) ''a'' = LNil" by simp
  have d: "(1::nat) + 1 \<le> MAX_DEPTH" by (simp add: MAX_DEPTH_def)
  show ?thesis
    using absent_field_rejected[OF h, where ty = Bool and array = False and H = Host0
          and childs = "[]" and depth = 1 and enc = "[]"]
      absent_field_rejected[OF h, where ty = String and array = True and H = Host0
          and childs = "[]" and depth = 1 and enc = "[]"]
      absent_field_rejected[OF h, where ty = Pto and array = True and H = Host0
          and childs = "[]" and depth = 1 and enc = "[]"] h d
    by (simp add: type_word_def)
qed

section \<open>Reads depend on a prefix of the input\<close>

lemma prefix_stableI:
  assumes "\<And>buf off x d'. off \<le> length buf \<Longrightarrow> f (cursor buf off) = Inr (x, d') \<Longrightarrow>
     \<exists>off'. d' = cursor buf off' \<and> off \<le> off' \<and> off' \<le> length buf
           \<and> (\<forall>buf2. take off' buf2 = take off' buf \<longrightarrow>
                  f (cursor buf2 off) = Inr (x, cursor buf2 off'))
           \<and> (\<forall>n. off \<le> n \<and> n < off' \<longrightarrow> f (cursor (take n buf) off) = Inl BadDecode)"
  shows "prefix_stable f"
  using assms unfolding prefix_stable_def by blast

lemma prefix_stableD:
  assumes "prefix_stable f" "off \<le> length buf" "f (cursor buf off) = Inr (x, d')"
  obtains off' where "d' = cursor buf off'" "off \<le> off'" "off' \<le> length buf"
    "\<And>buf2. take off' buf2 = take off' buf \<Longrightarrow> f (cursor buf2 off) = Inr (x, cursor buf2 off')"
    "\<And>n. off \<le> n \<Longrightarrow> n < off' \<Longrightarrow> f (cursor (take n buf) off) = Inl BadDecode"
  using assms unfolding prefix_stable_def by blast

lemma take_eq_length:
  assumes "take m ys = take m xs" "m \<le> length xs"
  shows "m \<le> length ys"
proof -
  have "length (take m ys) = m" using assms by simp
  then show ?thesis by simp
qed

lemma take_drop_prefix:
  assumes "take (off + sz) ys = take (off + sz) xs"
  shows "take sz (drop off ys) = take sz (drop off xs)"
proof -
  have "take sz (drop off ys) = drop off (take (off + sz) ys)"
    by (simp add: drop_take)
  also have "\<dots> = drop off (take (off + sz) xs)" using assms by simp
  also have "\<dots> = take sz (drop off xs)" by (simp add: drop_take)
  finally show ?thesis .
qed

lemma prefix_stable_Read_T: "prefix_stable (Read_T sz)"
proof (rule prefix_stableI)
  fix buf off and x :: "'a word" and d'
  assume off: "off \<le> length buf" and r: "Read_T sz (cursor buf off) = Inr (x, d')"
  from r have sz: "sz \<le> length buf - off"
    and x: "x = le_word (take sz (drop off buf))" and d': "d' = cursor buf (off + sz)"
    by (auto simp: Read_T_def cursor_def split: if_splits)
  have ext: "Read_T sz (cursor buf2 off) = Inr (x, cursor buf2 (off + sz))"
    if "take (off + sz) buf2 = take (off + sz) buf" for buf2
  proof -
    have "off + sz \<le> length buf2" using take_eq_length[OF that] sz off by simp
    then show ?thesis
      using take_drop_prefix[OF that] by (simp add: Read_T_def cursor_def x)
  qed
  have tr: "Read_T sz (cursor (take n buf) off) = (Inl BadDecode :: BadPto + 'a word \<times> Decoder)"
    if "off \<le> n" "n < off + sz" for n
    using that by (simp add: Read_T_def cursor_def)
  let ?f = "Read_T sz :: ('a word) reader"
  show "\<exists>off'. d' = cursor buf off' \<and> off \<le> off' \<and> off' \<le> length buf
           \<and> (\<forall>buf2. take off' buf2 = take off' buf \<longrightarrow>
                  ?f (cursor buf2 off) = Inr (x, cursor buf2 off'))
           \<and> (\<forall>n. off \<le> n \<and> n < off' \<longrightarrow> ?f (cursor (take n buf) off) = Inl BadDecode)"
    using d' sz off ext tr by (intro exI[of _ "off + sz"]) auto
qed

lemma prefix_stable_Read_bytes: "prefix_stable (Read_bytes sz)"
proof (rule prefix_stableI)
  fix buf off and x :: "byte list" and d'
  assume off: "off \<le> length buf" and r: "Read_bytes sz (cursor buf off) = Inr (x, d')"
  from r have sz: "sz \<le> length buf - off"
    and x: "x = take sz (drop off buf)" and d': "d' = cursor buf (off + sz)"
    by (auto simp: Read_bytes_def cursor_def split: if_splits)
  have ext: "Read_bytes sz (cursor buf2 off) = Inr (x, cursor buf2 (off + sz))"
    if "take (off + sz) buf2 = take (off + sz) buf" for buf2
  proof -
    have "off + sz \<le> length buf2" using take_eq_length[OF that] sz off by simp
    then show ?thesis
      using take_drop_prefix[OF that] by (simp add: Read_bytes_def cursor_def x)
  qed
  have tr: "Read_bytes sz (cursor (take n buf) off) = Inl BadDecode"
    if "off \<le> n" "n < off + sz" for n
    using that by (simp add: Read_bytes_def cursor_def)
  show "\<exists>off'. d' = cursor buf off' \<and> off \<le> off' \<and> off' \<le> length buf
           \<and> (\<forall>buf2. take off' buf2 = take off' buf \<longrightarrow>
                  Read_bytes sz (cursor buf2 off) = Inr (x, cursor buf2 off'))
           \<and> (\<forall>n. off \<le> n \<and> n < off' \<longrightarrow> Read_bytes sz (cursor (take n buf) off) = Inl BadDecode)"
    using d' sz off ext tr by (intro exI[of _ "off + sz"]) auto
qed

lemma prefix_stable_returnD: "prefix_stable (returnD x)"
  by (rule prefix_stableI) (auto simp: returnD_def)

lemma prefix_stable_throw: "prefix_stable (\<lambda>d. Inl e)"
  by (rule prefix_stableI) simp

lemma prefix_stable_bindD:
  assumes f: "prefix_stable f" and g: "\<And>x. prefix_stable (g x)"
  shows "prefix_stable (bindD f g)"
proof (rule prefix_stableI)
  fix buf off y d'
  assume off: "off \<le> length buf" and r: "bindD f g (cursor buf off) = Inr (y, d')"
  from r obtain x d1 where r1: "f (cursor buf off) = Inr (x, d1)" and r2: "g x d1 = Inr (y, d')"
    by (auto simp: bindD_def split: sum.splits)
  from prefix_stableD[OF f off r1] obtain o1 where
    d1: "d1 = cursor buf o1" and o1: "off \<le> o1" "o1 \<le> length buf"
    and e1: "\<And>buf2. take o1 buf2 = take o1 buf \<Longrightarrow> f (cursor buf2 off) = Inr (x, cursor buf2 o1)"
    and t1: "\<And>n. off \<le> n \<Longrightarrow> n < o1 \<Longrightarrow> f (cursor (take n buf) off) = Inl BadDecode"
    by blast
  from prefix_stableD[OF g o1(2) r2[unfolded d1]] obtain o2 where
    d2: "d' = cursor buf o2" and o2: "o1 \<le> o2" "o2 \<le> length buf"
    and e2: "\<And>buf2. take o2 buf2 = take o2 buf \<Longrightarrow> g x (cursor buf2 o1) = Inr (y, cursor buf2 o2)"
    and t2: "\<And>n. o1 \<le> n \<Longrightarrow> n < o2 \<Longrightarrow> g x (cursor (take n buf) o1) = Inl BadDecode"
    by blast
  have ext: "bindD f g (cursor buf2 off) = Inr (y, cursor buf2 o2)"
    if "take o2 buf2 = take o2 buf" for buf2
  proof -
    have "take o1 (take o2 buf2) = take o1 (take o2 buf)" using that by simp
    then have "take o1 buf2 = take o1 buf" using o2(1) by (simp add: min_def)
    then show ?thesis using e1 e2[OF that] by (simp add: bindD_def)
  qed
  have tr: "bindD f g (cursor (take n buf) off) = Inl BadDecode" if n: "off \<le> n" "n < o2" for n
  proof (cases "n < o1")
    case True
    then show ?thesis using t1[OF n(1)] by (simp add: bindD_def)
  next
    case False
    then have "take o1 (take n buf) = take o1 buf" by (simp add: min_def)
    from e1[OF this] t2[of n] False n show ?thesis by (simp add: bindD_def)
  qed
  show "\<exists>off'. d' = cursor buf off' \<and> off \<le> off' \<and> off' \<le> length buf
           \<and> (\<forall>buf2. take off' buf2 = take off' buf \<longrightarrow>
                  bindD f g (cursor buf2 off) = Inr (y, cursor buf2 off'))
           \<and> (\<forall>n. off \<le> n \<and> n < off' \<longrightarrow> bindD f g (cursor (take n buf) off) = Inl BadDecode)"
    using d2 o1 o2 ext tr by (intro exI[of _ o2]) auto
qed

lemma prefix_stable_if:
  "prefix_stable f \<Longrightarrow> prefix_stable g \<Longrightarrow> prefix_stable (if c then f else g)"
  by simp

lemma prefix_stable_forD:
  assumes "\<And>i s. prefix_stable (body i s)"
  shows "prefix_stable (forD is body s)"
  by (induction "is" arbitrary: s)
     (auto intro!: prefix_stable_returnD prefix_stable_bindD assms)


lemma Read_str_bind: "Read_str = bindD Read_uint16 (\<lambda>sz. Read_bytes (unat sz))"
  by (rule ext) (simp add: Read_str_def Read_bytes_def bindD_def split: sum.splits)

lemma prefix_stable_Read_str: "prefix_stable Read_str"
  unfolding Read_str_bind
  by (intro prefix_stable_bindD prefix_stable_Read_bytes) (simp add: Read_uint16_def prefix_stable_Read_T)

lemma prefix_stable_Read_int64: "prefix_stable Read_int64"
  unfolding Read_int64_def Let_def
  by (intro prefix_stable_bindD prefix_stable_if prefix_stable_returnD prefix_stable_throw
      prefix_stable_Read_bytes)
     (simp add: Read_uint8_def prefix_stable_Read_T)

lemma prefix_stable_values:
  "prefix_stable DecodeBool_value" "prefix_stable DecodeShort_value"
  "prefix_stable DecodeInt_value" "prefix_stable (DecodeFloat_value H)"
  "prefix_stable DecodeDouble_value" "prefix_stable DecodeString_value"
  unfolding DecodeBool_value_def DecodeShort_value_def DecodeInt_value_def DecodeFloat_value_def
    DecodeDouble_value_def DecodeString_value_def Read_bool_def Read_short_def Read_float_def
    Read_double_def
  by (intro prefix_stable_bindD prefix_stable_returnD prefix_stable_Read_T
      prefix_stable_Read_int64 prefix_stable_Read_str)+

lemma prefix_stable_decode_array:
  assumes "prefix_stable member"
  shows "prefix_stable (decode_array member)"
  unfolding decode_array_def Read_uint16_def
  by (intro prefix_stable_bindD prefix_stable_forD prefix_stable_returnD prefix_stable_Read_T assms)

lemma prefix_stable_decode_field:
  assumes "prefix_stable member"
  shows "prefix_stable (decode_field field tbl member)"
  unfolding decode_field_def
  by (intro prefix_stable_bindD prefix_stable_if prefix_stable_decode_array
      prefix_stable_returnD assms)

lemma DecodeChilds_Nil: "DecodeChilds H [] tbl depth = returnD tbl"
  by (rule ext) (simp add: returnD_def)

lemma DecodeChilds_Cons:
  "DecodeChilds H (c # rest) tbl depth =
     bindD (DecodeOne H c tbl depth) (\<lambda>tbl'. DecodeChilds H rest tbl' depth)"
  by (rule ext) (simp add: bindD_def)

lemma DecodeMembers_Nil: "DecodeMembers H (Field name array ty childs) [] arr depth = returnD arr"
  by (rule ext) (simp add: returnD_def)

lemma DecodeMembers_Cons:
  "DecodeMembers H (Field name array ty childs) (i # is) arr depth =
     bindD (DecodeChilds H childs lua_createtable depth)
       (\<lambda>t. DecodeMembers H (Field name array ty childs) is (lua_seti arr i t) depth)"
  by (rule ext) (simp add: bindD_def)

lemma DecodePto_bind:
  "DecodePto H (Field name array ty childs) tbl depth0 =
     (if depth0 + 1 > MAX_DEPTH then (\<lambda>d. Inl (TooDepth False))
      else if array then
        bindD Read_uint16 (\<lambda>sz.
          bindD (DecodeMembers H (Field name array ty childs) [1..<Suc (unat sz)]
                   lua_createtable (depth0 + 1))
            (\<lambda>arr. returnD (lua_setfield tbl name arr)))
      else
        bindD (DecodeChilds H childs lua_createtable (depth0 + 1))
          (\<lambda>t. returnD (lua_setfield tbl name t)))"
  by (rule ext) (simp add: bindD_def returnD_def Let_def split: sum.splits)

lemma DecodeOne_dispatch:
  "DecodeOne H (Field name array ty childs) tbl depth =
     (case ty of
        Bool \<Rightarrow> DecodeBool (Field name array ty childs) tbl
      | Short \<Rightarrow> DecodeShort (Field name array ty childs) tbl
      | Int_t \<Rightarrow> DecodeInt (Field name array ty childs) tbl
      | Float \<Rightarrow> DecodeFloat H (Field name array ty childs) tbl
      | Double \<Rightarrow> DecodeDouble (Field name array ty childs) tbl
      | String \<Rightarrow> DecodeString (Field name array ty childs) tbl
      | Pto \<Rightarrow> DecodePto H (Field name array ty childs) tbl depth
      | Unknown n \<Rightarrow> (\<lambda>d. Inl (BadType name n)))"
  by (rule ext) (simp split: eTYPE.splits)

declare DecodeOne.simps [simp del] DecodePto.simps [simp del]
declare EncodeOne.simps [simp del] EncodePto.simps [simp del]

lemma prefix_stable_DecodeOne: "prefix_stable (DecodeOne H field tbl depth)"
proof (induction field arbitrary: tbl depth)
  case (Field name array ty childs)
  have ch: "prefix_stable (DecodeChilds H cs t dp)" if "set cs \<subseteq> set childs" for cs t dp
    using that
  proof (induction cs arbitrary: t)
    case Nil
    show ?case by (simp add: DecodeChilds_Nil prefix_stable_returnD)
  next
    case (Cons c cs)
    show ?case
      unfolding DecodeChilds_Cons
      using Cons.prems by (intro prefix_stable_bindD Field.IH Cons.IH) auto
  qed
  have mem: "prefix_stable (DecodeMembers H (Field name array ty' childs) is arr dp)"
    for "is" arr dp ty'
  proof (induction "is" arbitrary: arr)
    case Nil
    show ?case by (simp add: DecodeMembers_Nil prefix_stable_returnD)
  next
    case (Cons i "is")
    show ?case
      unfolding DecodeMembers_Cons
      by (intro prefix_stable_bindD ch Cons.IH) simp
  qed
  have pto: "prefix_stable (DecodePto H (Field name array ty' childs) tbl depth)" for ty'
    unfolding DecodePto_bind Read_uint16_def
    by (intro prefix_stable_if prefix_stable_throw prefix_stable_bindD prefix_stable_Read_T
        prefix_stable_returnD mem ch) simp
  show ?case
    unfolding DecodeOne_dispatch
    by (cases ty)
       (simp_all add: pto prefix_stable_throw DecodeBool_def DecodeShort_def DecodeInt_def
          DecodeFloat_def DecodeDouble_def DecodeString_def prefix_stable_decode_field
          prefix_stable_values)
qed

lemma prefix_stable_DecodeChilds: "prefix_stable (DecodeChilds H cs tbl depth)"
proof (induction cs arbitrary: tbl)
  case Nil
  show ?case by (simp add: DecodeChilds_Nil prefix_stable_returnD)
next
  case (Cons c cs)
  show ?case
    unfolding DecodeChilds_Cons
    by (intro prefix_stable_bindD prefix_stable_DecodeOne Cons.IH)
qed


section \<open>Exact length and bounds of the decoder\<close>

lemma Decoder_cursor: "Decoder buf (length buf) = cursor buf 0"
  by (simp add: Decoder_def cursor_def)

lemma Decode_fits_int:
  assumes "GetPto ctx (ucast arg2) = Some pto"
    and "Decode H ctx arg2 (LString buf) = Inr v"
  shows "fits_int buf"
  using assms by (auto simp: Decode_def split: if_splits)


lemma fits_int_append: "fits_int (buf @ ext) \<Longrightarrow> fits_int buf"
  by (simp add: fits_int_def)


lemma raise_reason_TooDepth:
  "raise_reason (TooDepth True) = luaL_error ''pto encode too depth''"
  "raise_reason (TooDepth False) = luaL_error ''pto decode too depth''"
  by (simp_all add: raise_reason_def)

lemma Decode_string_cases:
  assumes "GetPto ctx (ucast arg2) = Some pto" and "fits_int buf"
  shows "Decode H ctx arg2 (LString buf) =
    (case DecodeChilds H (p_fields pto) lua_createtable 1 (cursor buf 0) of
       Inl e \<Rightarrow> Inl (raise_reason e)
     | Inr (tbl, d) \<Rightarrow>
         if d_offset d \<noteq> d_size d
         then Inl (luaL_error (''decode protocol:'' @ p_name pto @ '' error''))
         else Inr tbl)"
  using assms by (simp add: Decode_def Decoder_cursor)

lemma Decode_success:
  assumes "GetPto ctx (ucast arg2) = Some pto"
    and "Decode H ctx arg2 (LString buf) = Inr v"
  shows "DecodeChilds H (p_fields pto) lua_createtable 1 (cursor buf 0) =
           Inr (v, cursor buf (length buf))"
    and "\<And>buf2. take (length buf) buf2 = buf \<Longrightarrow>
           DecodeChilds H (p_fields pto) lua_createtable 1 (cursor buf2 0) =
             Inr (v, cursor buf2 (length buf))"
    and "\<And>n. n < length buf \<Longrightarrow>
           DecodeChilds H (p_fields pto) lua_createtable 1 (cursor (take n buf) 0) = Inl BadDecode"
proof -
  from assms(2) obtain d where
    r: "DecodeChilds H (p_fields pto) lua_createtable 1 (cursor buf 0) = Inr (v, d)"
    and e: "d_offset d = d_size d"
    unfolding Decode_string_cases[OF assms(1) Decode_fits_int[OF assms]]
    by (auto split: sum.splits prod.splits if_splits)
  from prefix_stableD[OF prefix_stable_DecodeChilds _ r] obtain off' where
    d: "d = cursor buf off'" and "off' \<le> length buf"
    and ext: "\<And>buf2. take off' buf2 = take off' buf \<Longrightarrow>
        DecodeChilds H (p_fields pto) lua_createtable 1 (cursor buf2 0) = Inr (v, cursor buf2 off')"
    and tr: "\<And>n. 0 \<le> n \<Longrightarrow> n < off' \<Longrightarrow>
        DecodeChilds H (p_fields pto) lua_createtable 1 (cursor (take n buf) 0) = Inl BadDecode"
    by auto
  have off': "off' = length buf" using e d by (simp add: cursor_def)
  show "DecodeChilds H (p_fields pto) lua_createtable 1 (cursor buf 0) =
           Inr (v, cursor buf (length buf))"
    using r d off' by simp
  show "DecodeChilds H (p_fields pto) lua_createtable 1 (cursor buf2 0) =
             Inr (v, cursor buf2 (length buf))" if "take (length buf) buf2 = buf" for buf2
    using ext[of buf2] that off' by simp
  show "DecodeChilds H (p_fields pto) lua_createtable 1 (cursor (take n buf) 0) = Inl BadDecode"
    if "n < length buf" for n
    using tr[of n] that off' by simp
qed

text \<open>
  Claim C4 (length-exactness on decode).  For a registered protocol and an input
  string \<open>buf\<close>: \<open>Decode\<close> succeeds only when the walk over the protocol's fields
  ends with the cursor at the length of \<open>buf\<close>; when the walk ends with the cursor
  elsewhere, \<open>Decode\<close> raises "decode protocol:<name> error"; hence when \<open>Decode\<close>
  succeeds on \<open>buf\<close>, it raises that error on \<open>buf\<close> followed by any bytes \<open>ext\<close>,
  at least one.
\<close>

theorem decode_length_exact:
  assumes "GetPto ctx (ucast arg2) = Some pto" and "fits_int (buf @ ext)"
  shows "(Decode H ctx arg2 (LString buf) = Inr v \<longrightarrow>
            DecodeChilds H (p_fields pto) lua_createtable 1 (Decoder buf (length buf)) =
              Inr (v, cursor buf (length buf)))
       \<and> (\<forall>tbl d. DecodeChilds H (p_fields pto) lua_createtable 1 (Decoder buf (length buf)) =
                    Inr (tbl, d) \<and> d_offset d \<noteq> length buf \<longrightarrow>
            Decode H ctx arg2 (LString buf) =
              Inl (luaL_error (''decode protocol:'' @ p_name pto @ '' error'')))
       \<and> (Decode H ctx arg2 (LString buf) = Inr v \<and> ext \<noteq> [] \<longrightarrow>
            Decode H ctx arg2 (LString (buf @ ext)) =
              Inl (luaL_error (''decode protocol:'' @ p_name pto @ '' error'')))"
proof (intro conjI impI allI)
  assume "Decode H ctx arg2 (LString buf) = Inr v"
  from Decode_success(1)[OF assms(1) this]
  show "DecodeChilds H (p_fields pto) lua_createtable 1 (Decoder buf (length buf)) =
          Inr (v, cursor buf (length buf))"
    by (simp add: Decoder_cursor)
next
  fix tbl d
  assume a: "DecodeChilds H (p_fields pto) lua_createtable 1 (Decoder buf (length buf)) =
               Inr (tbl, d) \<and> d_offset d \<noteq> length buf"
  then have r: "DecodeChilds H (p_fields pto) lua_createtable 1 (cursor buf 0) = Inr (tbl, d)"
    by (simp add: Decoder_cursor)
  from prefix_stableD[OF prefix_stable_DecodeChilds _ r] obtain off' where "d = cursor buf off'"
    by auto
  then have "d_offset d \<noteq> d_size d" using a by (simp add: cursor_def)
  then show "Decode H ctx arg2 (LString buf) =
      Inl (luaL_error (''decode protocol:'' @ p_name pto @ '' error''))"
    unfolding Decode_string_cases[OF assms(1) fits_int_append[OF assms(2)]] r by simp
next
  assume a: "Decode H ctx arg2 (LString buf) = Inr v \<and> ext \<noteq> []"
  have "DecodeChilds H (p_fields pto) lua_createtable 1 (cursor (buf @ ext) 0) =
      Inr (v, cursor (buf @ ext) (length buf))"
    using Decode_success(2)[OF assms(1), of H buf v "buf @ ext"] a by simp
  then show "Decode H ctx arg2 (LString (buf @ ext)) =
      Inl (luaL_error (''decode protocol:'' @ p_name pto @ '' error''))"
    unfolding Decode_string_cases[OF assms(1) assms(2)] using a by (simp add: cursor_def)
qed

lemma P1_GetPto_arg: "GetPto P1_ctx (ucast (1 :: 64 word)) = Some (Protocol ''P1'' P1_fields)"
  using P1_GetPto by simp

theorem decode_length_exact_witness:
  "GetPto P1_ctx (ucast (1 :: 64 word)) = Some (Protocol ''P1'' P1_fields)
   \<and> fits_int ([0x01, 0xFF, 0xFF, 0x00, 0x02, 0x00, 0x68, 0x69] @ [0x00])
   \<and> Decode Host0 P1_ctx 1 (LString [0x01, 0xFF, 0xFF, 0x00, 0x02, 0x00, 0x68, 0x69]) = Inr P1_record
   \<and> Decode Host0 P1_ctx 1 (LString ([0x01, 0xFF, 0xFF, 0x00, 0x02, 0x00, 0x68, 0x69] @ [0x00])) =
       Inl (luaL_error ''decode protocol:P1 error'')"
proof -
  have f: "fits_int ([0x01, 0xFF, 0xFF, 0x00, 0x02, 0x00, 0x68, 0x69] @ [0x00])"
    by (simp add: fits_int_def)
  show ?thesis
    using decode_length_exact[OF P1_GetPto_arg f, of Host0 P1_record] P1_Decode[of Host0]
      P1_GetPto_arg f
    by simp
qed



lemma Read_T_error: "Read_T sz d = Inl e \<Longrightarrow> e = BadDecode"
  by (simp add: Read_T_def split: if_splits)

lemma Read_bytes_error: "Read_bytes sz d = Inl e \<Longrightarrow> e = BadDecode"
  by (simp add: Read_bytes_def split: if_splits)

lemma Read_str_error: "Read_str d = Inl e \<Longrightarrow> e = BadDecode"
  unfolding Read_str_bind Read_uint16_def
  by (auto simp: bindD_def split: sum.splits dest: Read_T_error Read_bytes_error)

lemma Read_int64_error: "Read_int64 d = Inl e \<Longrightarrow> e \<noteq> Undefined \<Longrightarrow> e = BadDecode"
  unfolding Read_int64_def Read_uint8_def
  by (auto simp: bindD_def returnD_def Let_def split: sum.splits if_splits
      dest: Read_T_error Read_bytes_error)






section \<open>The depth bound\<close>

lemma depth_safeI: "(\<And>s b. f s \<noteq> Inl (TooDepth b)) \<Longrightarrow> depth_safe f"
  by (simp add: depth_safe_def)

lemma depth_safeD: "depth_safe f \<Longrightarrow> f s \<noteq> Inl (TooDepth b)"
  by (simp add: depth_safe_def)

lemma depth_safe_forE:
  assumes "\<And>x. depth_safe (body x)"
  shows "depth_safe (forE xs body)"
proof (rule depth_safeI)
  fix s b
  show "forE xs body s \<noteq> Inl (TooDepth b)"
    using depth_safeD[OF assms]
    by (induction xs arbitrary: s) (auto split: sum.splits)
qed

lemma depth_safe_encode_array:
  assumes "\<And>x. depth_safe (body x)"
  shows "depth_safe (encode_array field v body)"
  using depth_safeD[OF depth_safe_forE[of body], OF assms]
  by (auto intro!: depth_safeI simp: encode_array_def BeginArray_def Let_def
      split: sum.splits prod.splits if_splits)

lemma depth_safe_Encode_values:
  "depth_safe (EncodeBool_value a field v)" "depth_safe (EncodeShort_value H a field v)"
  "depth_safe (EncodeInt_value H a field v)" "depth_safe (EncodeFloat_value H a field v)"
  "depth_safe (EncodeDouble_value H a field v)" "depth_safe (EncodeString_value a field v)"
  by (auto intro!: depth_safeI simp: EncodeBool_value_def EncodeShort_value_def EncodeInt_value_def
      EncodeFloat_value_def EncodeDouble_value_def EncodeString_value_def Let_def
      split: if_splits)

lemma depth_safe_Encode_leaves:
  "depth_safe (EncodeBool field v)" "depth_safe (EncodeShort H field v)"
  "depth_safe (EncodeInt H field v)" "depth_safe (EncodeFloat H field v)"
  "depth_safe (EncodeDouble H field v)" "depth_safe (EncodeString field v)"
  by (simp_all add: EncodeBool_def EncodeShort_def EncodeInt_def EncodeFloat_def EncodeDouble_def
      EncodeString_def depth_safe_encode_array depth_safe_Encode_values)

lemma depth_safe_bindD:
  assumes "depth_safe f" "\<And>x. depth_safe (g x)"
  shows "depth_safe (bindD f g)"
  using depth_safeD[OF assms(1)] depth_safeD[OF assms(2)]
  by (auto intro!: depth_safeI simp: bindD_def split: sum.splits)

lemma depth_safe_returnD: "depth_safe (returnD x)"
  by (simp add: depth_safe_def returnD_def)

lemma depth_safe_Read_T: "depth_safe (Read_T sz)"
  by (auto intro!: depth_safeI dest: Read_T_error)

lemma depth_safe_Read_str: "depth_safe Read_str"
  by (auto intro!: depth_safeI dest: Read_str_error)

lemma depth_safe_Read_int64: "depth_safe Read_int64"
  by (rule depth_safeI) (use Read_int64_error in blast)

lemma depth_safe_forD:
  assumes "\<And>i s. depth_safe (body i s)"
  shows "depth_safe (forD is body s)"
  by (induction "is" arbitrary: s) (auto intro!: depth_safe_bindD depth_safe_returnD assms)

lemma depth_safe_Decode_values:
  "depth_safe DecodeBool_value" "depth_safe DecodeShort_value"
  "depth_safe DecodeInt_value" "depth_safe (DecodeFloat_value H)"
  "depth_safe DecodeDouble_value" "depth_safe DecodeString_value"
  unfolding DecodeBool_value_def DecodeShort_value_def DecodeInt_value_def DecodeFloat_value_def
    DecodeDouble_value_def DecodeString_value_def Read_bool_def Read_short_def Read_float_def
    Read_double_def
  by (intro depth_safe_bindD depth_safe_returnD depth_safe_Read_T depth_safe_Read_int64
      depth_safe_Read_str)+

lemma depth_safe_decode_field:
  assumes "depth_safe member"
  shows "depth_safe (decode_field field tbl member)"
  unfolding decode_field_def decode_array_def Read_uint16_def
  by (cases "f_array field")
     (auto intro!: depth_safe_bindD depth_safe_forD depth_safe_returnD depth_safe_Read_T assms)

lemma nesting_child:
  "c \<in> set childs \<Longrightarrow> nesting c \<le> foldr max (map nesting childs) 0"
  by (induction childs) auto

lemma EncodeChilds_Cons_fn:
  "EncodeChilds H (c # rest) v depth enc =
     (case EncodeOne H c (lua_getfield v (f_name c)) depth enc of
        Inl e \<Rightarrow> Inl e | Inr enc' \<Rightarrow> EncodeChilds H rest v depth enc')"
  by simp

lemma depth_safe_EncodeOne:
  "depth + nesting field \<le> MAX_DEPTH \<Longrightarrow> depth_safe (EncodeOne H field v depth)"
proof (induction field arbitrary: v depth)
  case (Field name array ty childs)
  show ?case
  proof (cases "ty = Pto")
    case False
    then show ?thesis
      using depth_safeD[OF depth_safe_Encode_leaves(1)] depth_safeD[OF depth_safe_Encode_leaves(2)]
        depth_safeD[OF depth_safe_Encode_leaves(3)] depth_safeD[OF depth_safe_Encode_leaves(4)]
        depth_safeD[OF depth_safe_Encode_leaves(5)] depth_safeD[OF depth_safe_Encode_leaves(6)]
      by (auto intro!: depth_safeI simp: EncodeOne.simps split: eTYPE.splits)
  next
    case True
    have bound: "Suc depth + nesting c \<le> MAX_DEPTH" if "c \<in> set childs" for c
      using Field.prems True nesting_child[OF that] by simp
    have ch: "EncodeChilds H cs r (Suc depth) enc \<noteq> Inl (TooDepth b)"
      if "set cs \<subseteq> set childs" for cs r enc b
      using that
    proof (induction cs arbitrary: enc)
      case Nil
      show ?case by simp
    next
      case (Cons c cs)
      have "depth_safe (EncodeOne H c (lua_getfield r (f_name c)) (Suc depth))"
        using Cons.prems by (intro Field.IH bound) auto
      from depth_safeD[OF this] Cons.IH Cons.prems show ?case
        by (auto split: sum.splits)
    qed
    have mem: "EncodeMembers H (Field name array ty childs) ms (Suc depth) enc \<noteq> Inl (TooDepth b)"
      for ms enc b
      by (induction ms arbitrary: enc) (auto simp: ch Let_def split: sum.splits)
    have le: "\<not> MAX_DEPTH < depth + 1" using Field.prems True by simp
    show ?thesis
      using True ch[of childs] mem le
      by (auto intro!: depth_safeI simp: EncodeOne.simps EncodePto.simps Let_def BeginArray_def
          split: sum.splits prod.splits if_splits)
  qed
qed

lemma depth_safe_DecodeOne:
  "depth + nesting field \<le> MAX_DEPTH \<Longrightarrow> depth_safe (DecodeOne H field tbl depth)"
proof (induction field arbitrary: tbl depth)
  case (Field name array ty childs)
  show ?case
  proof (cases "ty = Pto")
    case False
    then show ?thesis
      unfolding DecodeOne_dispatch
      by (cases ty)
         (simp_all add: DecodeBool_def DecodeShort_def DecodeInt_def DecodeFloat_def
            DecodeDouble_def DecodeString_def depth_safe_decode_field depth_safe_Decode_values,
          simp add: depth_safe_def)
  next
    case True
    have bound: "Suc depth + nesting c \<le> MAX_DEPTH" if "c \<in> set childs" for c
      using Field.prems True nesting_child[OF that] by simp
    have ch: "depth_safe (DecodeChilds H cs t (Suc depth))" if "set cs \<subseteq> set childs" for cs t
      using that
    proof (induction cs arbitrary: t)
      case Nil
      show ?case by (simp add: DecodeChilds_Nil depth_safe_returnD)
    next
      case (Cons c cs)
      show ?case
        unfolding DecodeChilds_Cons
        using Cons.prems by (intro depth_safe_bindD Field.IH Cons.IH bound) auto
    qed
    have mem: "depth_safe (DecodeMembers H (Field name a' ty' childs) is arr (Suc depth))"
      for "is" arr a' ty'
    proof (induction "is" arbitrary: arr)
      case Nil
      show ?case by (simp add: DecodeMembers_Nil depth_safe_returnD)
    next
      case (Cons i "is")
      show ?case
        unfolding DecodeMembers_Cons
        by (intro depth_safe_bindD ch Cons.IH) simp
    qed
    have le: "\<not> MAX_DEPTH < depth + 1" using Field.prems True by simp
    have "depth_safe (DecodePto H (Field name array ty childs) tbl depth)"
      unfolding DecodePto_bind Read_uint16_def using le
      by (simp add: depth_safe_bindD depth_safe_returnD depth_safe_Read_T mem ch del: upt_Suc)
    then show ?thesis
      using True unfolding DecodeOne_dispatch by simp
  qed
qed


lemma f_name_chain [simp]: "f_name (message_chain k) = ''m''"
  by (cases k) simp_all

lemma nesting_chain: "nesting (message_chain k) = k + 1"
  by (induction k) simp_all

lemma lua_type_chain [simp]: "lua_type (chain_value k) = LUA_TTABLE"
  by (cases k) (simp_all add: lua_createtable_def)

lemma lua_getfield_chain [simp]: "lua_getfield (chain_value (Suc k)) ''m'' = chain_value k"
  by (simp add: lua_createtable_def)

lemma chain_encode:
  "EncodeOne H (message_chain k) (chain_value k) depth enc =
     (if MAX_DEPTH < depth + k + 1 then Inl (TooDepth True) else Inr enc)"
proof (induction k arbitrary: depth)
  case 0
  show ?case by (simp add: EncodeOne.simps EncodePto.simps Let_def lua_createtable_def)
next
  case (Suc k)
  show ?case
    using Suc.IH[of "depth + 1"]
    by (simp add: EncodeOne.simps EncodePto.simps Let_def lua_createtable_def)
qed

lemma chain_decode:
  "DecodeOne H (message_chain k) tbl depth d =
     (if MAX_DEPTH < depth + k + 1 then Inl (TooDepth False)
      else Inr (lua_setfield tbl ''m'' (chain_value k), d))"
proof (induction k arbitrary: depth tbl)
  case 0
  show ?case by (simp add: DecodeOne.simps DecodePto.simps Let_def lua_createtable_def)
next
  case (Suc k)
  show ?case
    using Suc.IH[of lua_createtable "depth + 1"]
    by (simp add: DecodeOne.simps DecodePto.simps Let_def lua_createtable_def)
qed

lemma chain_GetPto:
  "GetPto (chain_ctx k) (ucast (1 :: 64 word)) = Some (Protocol ''deep'' [message_chain k])"
  by (simp add: GetPto_def chain_ctx_def Context_def word_le_nat_alt)

lemma chain_Encode:
  assumes "GetPto ctx (ucast arg2) = Some (Protocol pname [message_chain k])"
  shows "Encode H ctx arg2 (chain_value (Suc k)) =
     (if k < 127 then Inr [] else Inl (luaL_error ''pto encode too depth''))"
  using assms chain_encode[of H k 1 "[]"]
  by (simp add: Encode_def lua_createtable_def MAX_DEPTH_def raise_reason_TooDepth)

lemma chain_Decode:
  assumes "GetPto ctx (ucast arg2) = Some (Protocol pname [message_chain k])"
  shows "Decode H ctx arg2 (LString []) =
     (if k < 127 then Inr (chain_value (Suc k)) else Inl (luaL_error ''pto decode too depth''))"
  using assms chain_decode[of H k lua_createtable 1 "Decoder [] 0"]
  by (simp add: Decode_def MAX_DEPTH_def raise_reason_TooDepth fits_int_def Decoder_def)

lemma depth_safe_EncodeChilds:
  assumes "\<forall>f \<in> set cs. depth + nesting f \<le> MAX_DEPTH"
  shows "depth_safe (EncodeChilds H cs v depth)"
proof (rule depth_safeI)
  fix enc b
  show "EncodeChilds H cs v depth enc \<noteq> Inl (TooDepth b)"
    using assms
  proof (induction cs arbitrary: enc)
    case Nil
    show ?case by simp
  next
    case (Cons c cs)
    have "depth_safe (EncodeOne H c (lua_getfield v (f_name c)) depth)"
      using Cons.prems by (intro depth_safe_EncodeOne) simp
    from depth_safeD[OF this] Cons.IH Cons.prems show ?case
      by (auto split: sum.splits)
  qed
qed

lemma depth_safe_DecodeChilds:
  assumes "\<forall>f \<in> set cs. depth + nesting f \<le> MAX_DEPTH"
  shows "depth_safe (DecodeChilds H cs tbl depth)"
  using assms
proof (induction cs arbitrary: tbl)
  case Nil
  show ?case by (simp add: DecodeChilds_Nil depth_safe_returnD)
next
  case (Cons c cs)
  show ?case
    unfolding DecodeChilds_Cons
    using Cons.prems by (intro depth_safe_bindD depth_safe_DecodeOne Cons.IH) simp_all
qed

lemma raise_reason_too_depth:
  "raise_reason e = luaL_error ''pto encode too depth'' \<Longrightarrow> e = TooDepth True"
  "raise_reason e = luaL_error ''pto decode too depth'' \<Longrightarrow> e = TooDepth False"
  by (cases e; simp add: raise_reason_def split: if_splits)+

lemma top_level_depth_safe:
  assumes "GetPto ctx (ucast arg2) = Some pto"
    and "\<forall>f \<in> set (p_fields pto). nesting f \<le> 127"
  shows "Encode H ctx arg2 rcd \<noteq> Inl (luaL_error ''pto encode too depth'')"
    and "Decode H ctx arg2 arg3 \<noteq> Inl (luaL_error ''pto decode too depth'')"
proof -
  have n: "\<forall>f \<in> set (p_fields pto). 1 + nesting f \<le> MAX_DEPTH"
    using assms(2) by (simp add: MAX_DEPTH_def)
  show "Encode H ctx arg2 rcd \<noteq> Inl (luaL_error ''pto encode too depth'')"
    using assms(1) depth_safeD[OF depth_safe_EncodeChilds[OF n], of H rcd "[]" True]
    by (auto simp: Encode_def split: if_splits sum.splits dest: raise_reason_too_depth(1))
  show "Decode H ctx arg2 arg3 \<noteq> Inl (luaL_error ''pto decode too depth'')"
    using assms(1) depth_safeD[OF depth_safe_DecodeChilds[OF n], of H lua_createtable _ False]
    by (auto simp: Decode_def split: if_splits sum.splits option.splits prod.splits
        dest: raise_reason_too_depth(2))
qed

text \<open>
  Against claim C6 as stated: 128 Message fields nested in one another are a nesting
  at the bound \<open>MAX_DEPTH = 128\<close>, yet encoding and decoding under the protocol
  \<open>deep\<close>, whose field has this nesting, raise \<^verbatim>\<open>TooDepth\<close>.
\<close>

theorem depth_128_counterexample:
  "nesting (message_chain 127) = 128
   \<and> GetPto (chain_ctx 127) (ucast (1 :: 64 word)) = Some (Protocol ''deep'' [message_chain 127])
   \<and> Encode Host0 (chain_ctx 127) 1 (chain_value 128) =
       Inl (luaL_error ''pto encode too depth'')
   \<and> Decode Host0 (chain_ctx 127) 1 (LString []) = Inl (luaL_error ''pto decode too depth'')"
  using nesting_chain[of 127] chain_GetPto[of 127]
    chain_Encode[OF chain_GetPto[of 127], of Host0] chain_Decode[OF chain_GetPto[of 127], of Host0]
  by simp

text \<open>
  Claim C6 (depth bound), amended.  \<open>Encode\<close> and \<open>Decode\<close> walk the fields of the
  protocol with the depth counter at 1, and each Message field adds 1 to it for its
  children.  \<^verbatim>\<open>EncodePto\<close> and \<^verbatim>\<open>DecodePto\<close> raise \<^verbatim>\<open>TooDepth\<close> ("pto encode too depth",
  "pto decode too depth") when entered with a counter of 128 or more, and a field
  whose nesting added to the counter stays within 128 never raises \<^verbatim>\<open>TooDepth\<close>.
  So \<open>Encode\<close> and \<open>Decode\<close> accept a protocol whose field is a chain of up to 127
  Message fields nested in one another and raise \<^verbatim>\<open>TooDepth\<close> for a chain of 128 or
  more; and under a protocol whose fields have a nesting of at most 127 neither
  raises \<^verbatim>\<open>TooDepth\<close>, whatever the record or the input.
\<close>

theorem depth_bound:
  "(MAX_DEPTH \<le> depth \<longrightarrow>
      EncodePto H field v depth enc = Inl (TooDepth True)
      \<and> DecodePto H field tbl depth d = Inl (TooDepth False))
   \<and> (depth + nesting field \<le> MAX_DEPTH \<longrightarrow>
      (\<forall>b. EncodeOne H field v depth enc \<noteq> Inl (TooDepth b))
      \<and> (\<forall>b. DecodeOne H field tbl depth d \<noteq> Inl (TooDepth b)))
   \<and> (\<forall>k. nesting (message_chain k) = k + 1
         \<and> (EncodeOne H (message_chain k) (chain_value k) 1 enc = Inl (TooDepth True) \<longleftrightarrow> 127 \<le> k)
         \<and> (EncodeOne H (message_chain k) (chain_value k) 1 enc = Inr enc \<longleftrightarrow> k < 127)
         \<and> (DecodeOne H (message_chain k) tbl 1 d = Inl (TooDepth False) \<longleftrightarrow> 127 \<le> k)
         \<and> (DecodeOne H (message_chain k) tbl 1 d =
               Inr (lua_setfield tbl ''m'' (chain_value k), d) \<longleftrightarrow> k < 127))
   \<and> (\<forall>k pname. GetPto ctx (ucast arg2) = Some (Protocol pname [message_chain k]) \<longrightarrow>
         Encode H ctx arg2 (chain_value (Suc k)) =
           (if k < 127 then Inr [] else Inl (luaL_error ''pto encode too depth''))
         \<and> Decode H ctx arg2 (LString []) =
           (if k < 127 then Inr (chain_value (Suc k))
            else Inl (luaL_error ''pto decode too depth'')))
   \<and> (\<forall>pto. GetPto ctx (ucast arg2) = Some pto
              \<and> (\<forall>f \<in> set (p_fields pto). nesting f \<le> 127) \<longrightarrow>
         Encode H ctx arg2 rcd \<noteq> Inl (luaL_error ''pto encode too depth'')
         \<and> Decode H ctx arg2 arg3 \<noteq> Inl (luaL_error ''pto decode too depth''))
   \<and> reason (TooDepth True) = ''pto encode too depth''
   \<and> reason (TooDepth False) = ''pto decode too depth''
   \<and> MAX_DEPTH = 128"
proof -
  have a: "EncodePto H field v depth enc = Inl (TooDepth True)
      \<and> DecodePto H field tbl depth d = Inl (TooDepth False)" if "MAX_DEPTH \<le> depth"
    using that by (cases field) (simp add: EncodePto.simps DecodePto.simps)
  have b: "(\<forall>b. EncodeOne H field v depth enc \<noteq> Inl (TooDepth b))
      \<and> (\<forall>b. DecodeOne H field tbl depth d \<noteq> Inl (TooDepth b))"
    if "depth + nesting field \<le> MAX_DEPTH"
    using depth_safeD[OF depth_safe_EncodeOne[OF that]] depth_safeD[OF depth_safe_DecodeOne[OF that]]
    by blast
  have c: "nesting (message_chain k) = k + 1
         \<and> (EncodeOne H (message_chain k) (chain_value k) 1 enc = Inl (TooDepth True) \<longleftrightarrow> 127 \<le> k)
         \<and> (EncodeOne H (message_chain k) (chain_value k) 1 enc = Inr enc \<longleftrightarrow> k < 127)
         \<and> (DecodeOne H (message_chain k) tbl 1 d = Inl (TooDepth False) \<longleftrightarrow> 127 \<le> k)
         \<and> (DecodeOne H (message_chain k) tbl 1 d =
               Inr (lua_setfield tbl ''m'' (chain_value k), d) \<longleftrightarrow> k < 127)" for k
    by (auto simp: nesting_chain chain_encode chain_decode MAX_DEPTH_def)
  have e: "Encode H ctx arg2 (chain_value (Suc k)) =
           (if k < 127 then Inr [] else Inl (luaL_error ''pto encode too depth''))
         \<and> Decode H ctx arg2 (LString []) =
           (if k < 127 then Inr (chain_value (Suc k))
            else Inl (luaL_error ''pto decode too depth''))"
    if "GetPto ctx (ucast arg2) = Some (Protocol pname [message_chain k])" for k pname
    using chain_Encode[OF that] chain_Decode[OF that] by blast
  have f: "Encode H ctx arg2 rcd \<noteq> Inl (luaL_error ''pto encode too depth'')
         \<and> Decode H ctx arg2 arg3 \<noteq> Inl (luaL_error ''pto decode too depth'')"
    if "GetPto ctx (ucast arg2) = Some pto \<and> (\<forall>f \<in> set (p_fields pto). nesting f \<le> 127)"
    for pto
    using top_level_depth_safe[of ctx arg2 pto] that by blast
  have g: "reason (TooDepth True) = ''pto encode too depth''
      \<and> reason (TooDepth False) = ''pto decode too depth'' \<and> MAX_DEPTH = 128"
    by (simp add: MAX_DEPTH_def)
  show ?thesis
    using a b c e f g by blast
qed

theorem depth_bound_witness:
  "GetPto (chain_ctx 126) (ucast (1 :: 64 word)) = Some (Protocol ''deep'' [message_chain 126])
   \<and> nesting (message_chain 126) = 127
   \<and> Encode Host0 (chain_ctx 126) 1 (chain_value 127) = Inr []
   \<and> Decode Host0 (chain_ctx 126) 1 (LString []) = Inr (chain_value 127)
   \<and> GetPto (chain_ctx 127) (ucast (1 :: 64 word)) = Some (Protocol ''deep'' [message_chain 127])
   \<and> Encode Host0 (chain_ctx 127) 1 (chain_value 128) =
       Inl (luaL_error ''pto encode too depth'')
   \<and> Decode Host0 (chain_ctx 127) 1 (LString []) = Inl (luaL_error ''pto decode too depth'')
   \<and> MAX_DEPTH \<le> 128
   \<and> EncodePto Host0 (Field ''m'' False Pto []) lua_createtable 128 [] = Inl (TooDepth True)
   \<and> DecodePto Host0 (Field ''m'' False Pto []) lua_createtable 128 (Decoder [] 0) =
       Inl (TooDepth False)
   \<and> 127 + nesting (Field ''m'' False Pto []) \<le> MAX_DEPTH
   \<and> EncodeOne Host0 (Field ''m'' False Pto []) lua_createtable 127 [] \<noteq> Inl (TooDepth True)
   \<and> DecodeOne Host0 (Field ''m'' False Pto []) lua_createtable 127 (Decoder [] 0) \<noteq>
       Inl (TooDepth False)"
proof -
  have h1: "MAX_DEPTH \<le> 128" by (simp add: MAX_DEPTH_def)
  have h2: "127 + nesting (Field ''m'' False Pto []) \<le> MAX_DEPTH" by (simp add: MAX_DEPTH_def)
  note g126 = chain_GetPto[of 126]
  note g127 = chain_GetPto[of 127]
  note t126 = depth_bound[where ctx = "chain_ctx 126" and ?arg2.0 = 1 and H = Host0
      and depth = 128 and field = "Field ''m'' False Pto []" and v = lua_createtable
      and enc = "[]" and tbl = lua_createtable and d = "Decoder [] 0"]
  note t127 = depth_bound[where ctx = "chain_ctx 127" and ?arg2.0 = 1 and H = Host0
      and depth = 127 and field = "Field ''m'' False Pto []" and v = lua_createtable
      and enc = "[]" and tbl = lua_createtable and d = "Decoder [] 0"]
  have "nesting (message_chain 126) = 126 + 1"
    using t126 by blast
  hence a: "nesting (message_chain 126) = 127"
    by simp
  have "Encode Host0 (chain_ctx 126) 1 (chain_value (Suc 126)) =
          (if (126 :: nat) < 127 then Inr [] else Inl (luaL_error ''pto encode too depth''))
      \<and> Decode Host0 (chain_ctx 126) 1 (LString []) =
          (if (126 :: nat) < 127 then Inr (chain_value (Suc 126))
           else Inl (luaL_error ''pto decode too depth''))"
    using t126 g126 by blast
  hence b: "Encode Host0 (chain_ctx 126) 1 (chain_value 127) = Inr []
      \<and> Decode Host0 (chain_ctx 126) 1 (LString []) = Inr (chain_value 127)"
    by (simp del: chain_value.simps)
  have "Encode Host0 (chain_ctx 127) 1 (chain_value (Suc 127)) =
          (if (127 :: nat) < 127 then Inr [] else Inl (luaL_error ''pto encode too depth''))
      \<and> Decode Host0 (chain_ctx 127) 1 (LString []) =
          (if (127 :: nat) < 127 then Inr (chain_value (Suc 127))
           else Inl (luaL_error ''pto decode too depth''))"
    using t127 g127 by blast
  hence c: "Encode Host0 (chain_ctx 127) 1 (chain_value 128) =
       Inl (luaL_error ''pto encode too depth'')
      \<and> Decode Host0 (chain_ctx 127) 1 (LString []) = Inl (luaL_error ''pto decode too depth'')"
    by (simp del: chain_value.simps)
  have d: "EncodePto Host0 (Field ''m'' False Pto []) lua_createtable 128 [] = Inl (TooDepth True)
      \<and> DecodePto Host0 (Field ''m'' False Pto []) lua_createtable 128 (Decoder [] 0) =
          Inl (TooDepth False)"
    using t126 h1 by blast
  have e: "EncodeOne Host0 (Field ''m'' False Pto []) lua_createtable 127 [] \<noteq> Inl (TooDepth True)
      \<and> DecodeOne Host0 (Field ''m'' False Pto []) lua_createtable 127 (Decoder [] 0) \<noteq>
          Inl (TooDepth False)"
    using t127 h2 by blast
  show ?thesis
    using g126 g127 a b c d e h1 h2 by blast
qed

end
